theory Spec2Isabelle
  imports
    Complex_Main
    "HOL-Library.Multiset"
    "HOL-Library.List_Lexorder"
    "HOL-Library.Char_ord"
    "HOL-Library.Product_Lexorder"
begin

unbundle bit_operations_syntax

section \<open>Allele specific DNase/ATAC signal: a model of allele\_specific\_dnase.py\<close>

text \<open>
  The script is one straight-line program working on a global dictionary \<open>snp_dict\<close>.
  Each numbered stage of the script is a function here, taking the dictionary (or one of
  its entries) and returning the updated one.  A Python exception is a value \<open>Inl e\<close>.

  Conventions of the model:
  \<^item> Python dictionaries are association lists in insertion order (the iteration order of
    \<open>dict\<close> in Python 3.7 and later); assigning to a present key keeps its place.
  \<^item> Python \<open>int\<close> is \<open>int\<close>; the floats produced by \<open>scipy.stats.binom_test\<close> are \<open>real\<close>.
  \<^item> \<open>binom_test\<close> and the rendering \<open>str\<close> of a float belong to libraries and are
    parameters (\<open>bt\<close>, \<open>str_float\<close>) of the functions that call them.
  \<^item> A base is a Python string: \<open>read_seq[pos_snp]\<close> is a string of length one, and the
    reference and alternative alleles are the column texts of the SNP file.
\<close>

subsection \<open>Python primitives\<close>

datatype py_error = IndexError | KeyError

text \<open>\<open>xs[i]\<close> on a sequence: an index below zero counts from the end.\<close>

definition py_index :: "'a list \<Rightarrow> int \<Rightarrow> py_error + 'a" where
  "py_index xs i =
     (if 0 \<le> i \<and> i < int (length xs) then Inr (xs ! nat i)
      else if i < 0 \<and> - int (length xs) \<le> i then Inr (xs ! nat (int (length xs) + i))
      else Inl IndexError)"

text \<open>\<open>k in d\<close>, \<open>d[k]\<close> read and \<open>d[k] = v\<close> on an insertion-ordered dictionary.\<close>

fun dict_get :: "('k \<times> 'v) list \<Rightarrow> 'k \<Rightarrow> 'v option" where
  "dict_get [] k = None"
| "dict_get ((k', v) # d) k = (if k' = k then Some v else dict_get d k)"

fun dict_set :: "('k \<times> 'v) list \<Rightarrow> 'k \<Rightarrow> 'v \<Rightarrow> ('k \<times> 'v) list" where
  "dict_set [] k v = [(k, v)]"
| "dict_set ((k', v') # d) k v = (if k' = k then (k, v) # d else (k', v') # dict_set d k v)"

text \<open>\<open>str\<close> of an integer, in decimal.\<close>

definition digit_char :: "nat \<Rightarrow> char" where
  "digit_char d = ''0123456789'' ! d"

fun str_nat :: "nat \<Rightarrow> string" where
  "str_nat n = (if n < 10 then [digit_char n] else str_nat (n div 10) @ [digit_char (n mod 10)])"

declare str_nat.simps [simp del]

definition str_int :: "int \<Rightarrow> string" where
  "str_int i = (if i < 0 then CHR ''-'' # str_nat (nat (- i)) else str_nat (nat i))"

subsection \<open>Data\<close>

text \<open>
  A read as the script uses a \<open>pysam\<close> aligned segment: \<open>reference_start\<close>,
  \<open>query_sequence\<close>, \<open>query_alignment_qualities\<close> and the \<open>NM\<close> tag.
\<close>

record read_obs =
  reference_start :: int
  query_sequence :: string
  query_alignment_qualities :: "int list"
  tag_NM :: int

text \<open>An entry of \<open>allelic_dict\<close>: \<open>{'count': n}\<close>, with \<open>'pvalue'\<close> once a test has run.\<close>

record allele =
  allele_count :: int
  allele_pvalue :: "real option"

type_synonym allelic = "(string \<times> allele) list"

text \<open>
  An entry of \<open>snp_dict\<close>.  The keys \<open>reads\<close>, \<open>flag_sufficient_reads\<close>,
  \<open>allelic_dict\<close> and the report strings are added by the stages; \<open>allelic_dict\<close> exists
  only for a SNP with sufficient reads, hence the option.  \<open>reads\<close> starts as the empty
  list (the script creates it at the first alignment file, and at least one is required).
\<close>

record snp =
  chr :: string
  pos :: int
  snp_id :: string
  ref :: string
  alt :: string
  reads :: "read_obs list"
  flag_sufficient_reads :: bool
  allelic_dict :: "allelic option"
  report_comment :: string
  report_ref :: string
  report_alt :: string
  report_other :: string

type_synonym snp_dict = "(string \<times> snp) list"

record config =
  MAX_MISSMATCHES_PER_READ :: int
  MIN_MAPPING_QUAL_AT_SNP :: int
  MIN_READS_AT_SNP :: int

text \<open>An alignment file, as its \<open>fetch(chr, start, end)\<close>.\<close>

type_synonym bam = "string \<Rightarrow> int \<Rightarrow> int \<Rightarrow> read_obs list"

subsection \<open>Stage 1: the SNP input\<close>

text \<open>
  A line of the SNP file in bed format after \<open>split\<close>, with the position already read
  as an integer: chromosome, start, name, and the reference and alternative columns.
\<close>

record snp_line =
  line_chr :: string
  line_pos :: int
  line_name :: string
  line_ref :: string
  line_alt :: string

text \<open>
  The test under the comment \<open># skip indels\<close>:
  \<^verbatim>\<open>if len(line_split[ref_col]) != 1 | len(line_split[alt_col]) != 1:\<close>
  In Python \<open>|\<close> binds tighter than \<open>!=\<close>, and comparisons chain, so this is
  \<^verbatim>\<open>len(ref) != (1 | len(alt)) and (1 | len(alt)) != 1\<close>.
\<close>

definition skip_indel :: "string \<Rightarrow> string \<Rightarrow> bool" where
  "skip_indel r a =
     (int (length r) \<noteq> (1 OR int (length a)) \<and> (1 OR int (length a)) \<noteq> (1::int))"

definition new_snp :: "snp_line \<Rightarrow> snp" where
  "new_snp l =
     \<lparr>chr = line_chr l, pos = line_pos l, snp_id = line_name l,
      ref = line_ref l, alt = line_alt l,
      reads = [], flag_sufficient_reads = False, allelic_dict = None,
      report_comment = [], report_ref = [], report_alt = [], report_other = []\<rparr>"

text \<open>The loop over the lines: the dictionary and \<open>indel_count\<close>.\<close>

fun read_snps :: "snp_line list \<Rightarrow> snp_dict \<times> int \<Rightarrow> snp_dict \<times> int" where
  "read_snps [] acc = acc"
| "read_snps (l # ls) (d, indel_count) =
     (if skip_indel (line_ref l) (line_alt l) then read_snps ls (d, indel_count + 1)
      else read_snps ls (dict_set d (line_name l) (new_snp l), indel_count))"

subsection \<open>Stage 2: extract and filter the reads over a SNP\<close>

text \<open>Filter.1 and Filter.2 for one read: \<open>Inr True\<close> when the read is appended.\<close>

definition read_passes :: "config \<Rightarrow> snp \<Rightarrow> read_obs \<Rightarrow> py_error + bool" where
  "read_passes cfg s r =
     (if tag_NM r > MAX_MISSMATCHES_PER_READ cfg then Inr False
      else case py_index (query_alignment_qualities r) (pos s - reference_start r) of
             Inl e \<Rightarrow> Inl e
           | Inr q \<Rightarrow> if q < MIN_MAPPING_QUAL_AT_SNP cfg then Inr False else Inr True)"

fun filter_reads :: "config \<Rightarrow> snp \<Rightarrow> read_obs list \<Rightarrow> py_error + read_obs list" where
  "filter_reads cfg s [] = Inr []"
| "filter_reads cfg s (r # rs) =
     (case read_passes cfg s r of
        Inl e \<Rightarrow> Inl e
      | Inr ok \<Rightarrow>
          (case filter_reads cfg s rs of
             Inl e \<Rightarrow> Inl e
           | Inr temp_reads \<Rightarrow> Inr (if ok then r # temp_reads else temp_reads)))"

text \<open>One alignment file over every SNP, then every alignment file.\<close>

fun extract_bam :: "config \<Rightarrow> bam \<Rightarrow> snp_dict \<Rightarrow> py_error + snp_dict" where
  "extract_bam cfg fetch [] = Inr []"
| "extract_bam cfg fetch ((key, s) # d) =
     (case filter_reads cfg s (fetch (chr s) (pos s + 1) (pos s + 2)) of
        Inl e \<Rightarrow> Inl e
      | Inr temp_reads \<Rightarrow>
          (case extract_bam cfg fetch d of
             Inl e \<Rightarrow> Inl e
           | Inr d' \<Rightarrow> Inr ((key, s\<lparr>reads := reads s @ temp_reads\<rparr>) # d')))"

fun extract_all :: "config \<Rightarrow> bam list \<Rightarrow> snp_dict \<Rightarrow> py_error + snp_dict" where
  "extract_all cfg [] d = Inr d"
| "extract_all cfg (b # bs) d =
     (case extract_bam cfg b d of Inl e \<Rightarrow> Inl e | Inr d' \<Rightarrow> extract_all cfg bs d')"

text \<open>Filter.3: the minimum number of reads.\<close>

definition min_reads_gate :: "config \<Rightarrow> snp \<Rightarrow> snp" where
  "min_reads_gate cfg s =
     (if int (length (reads s)) < MIN_READS_AT_SNP cfg
      then s\<lparr>flag_sufficient_reads := False, reads := []\<rparr>
      else s\<lparr>flag_sufficient_reads := True\<rparr>)"

subsection \<open>Stage 3: split the reads into alleles\<close>

text \<open>The base of a read at the SNP: \<open>read_seq[pos_snp]\<close>, a string of length one.\<close>

definition base_snp :: "int \<Rightarrow> read_obs \<Rightarrow> py_error + string" where
  "base_snp p r =
     (case py_index (query_sequence r) (p - reference_start r) of
        Inl e \<Rightarrow> Inl e
      | Inr c \<Rightarrow> Inr [c])"

fun count_alleles :: "int \<Rightarrow> read_obs list \<Rightarrow> allelic \<Rightarrow> py_error + allelic" where
  "count_alleles p [] d = Inr d"
| "count_alleles p (r # rs) d =
     (case base_snp p r of
        Inl e \<Rightarrow> Inl e
      | Inr b \<Rightarrow>
          (case dict_get d b of
             Some a \<Rightarrow> count_alleles p rs (dict_set d b (a\<lparr>allele_count := allele_count a + 1\<rparr>))
           | None \<Rightarrow> count_alleles p rs (dict_set d b \<lparr>allele_count = 1, allele_pvalue = None\<rparr>)))"

subsection \<open>Stage 5: test for allelic imbalance\<close>

text \<open>
  The loop "else use the base with most counts": a base replaces the current one only on
  a strictly larger count, so of several bases with the largest count the one met first
  in the iteration of \<open>allelic_dict\<close> stays.
\<close>

fun most_counts :: "string \<Rightarrow> allelic \<Rightarrow> string \<times> int \<Rightarrow> string \<times> int" where
  "most_counts a [] acc = acc"
| "most_counts a ((allele_bases, e) # d) (ref_allele_base, ref_allele_count) =
     (if allele_bases \<noteq> a \<and> allele_count e > ref_allele_count
      then most_counts a d (allele_bases, allele_count e)
      else most_counts a d (ref_allele_base, ref_allele_count))"

text \<open>
  The base to test relative to: the updated entry with \<open>ref_allele_base\<close> and
  \<open>ref_allele_count\<close>.
\<close>

definition reference_allele :: "snp \<Rightarrow> allelic \<Rightarrow> snp \<times> string \<times> int" where
  "reference_allele s d =
     (case dict_get d (ref s) of
        Some e \<Rightarrow>
          (s\<lparr>report_ref := ref s @ '':'' @ str_int (allele_count e)\<rparr>, ref s, allele_count e)
      | None \<Rightarrow>
          (case most_counts (alt s) d (ref s, 0) of
             (b, c) \<Rightarrow>
               (s\<lparr>report_ref :=
                    (if b \<noteq> ref s then ref s @ '':0'' @ '';'' @ b @ '':'' @ str_int c
                     else ref s @ '':0''),
                  report_comment := report_comment s @ ''No_Ref_Reads;Calc_rel_to_'' @ b @ '';''\<rparr>,
                b, c)))"

text \<open>The binomial test of every present base but the reference one.\<close>

definition binom_all :: "(int \<Rightarrow> int \<Rightarrow> real) \<Rightarrow> string \<Rightarrow> int \<Rightarrow> allelic \<Rightarrow> allelic" where
  "binom_all bt rb rc d =
     map (\<lambda>(test_base, e).
            if test_base = rb then (test_base, e)
            else (test_base, e\<lparr>allele_pvalue := Some (bt (allele_count e) (allele_count e + rc))\<rparr>)) d"

text \<open>
  The branches "no alternative reference base could be found", "only one base is present"
  and the tests.  The last component is what is added to \<open>not_queried_count\<close>.
\<close>

definition test_imbalance ::
  "(int \<Rightarrow> int \<Rightarrow> real) \<Rightarrow> snp \<Rightarrow> allelic \<Rightarrow> string \<Rightarrow> int \<Rightarrow> snp \<times> allelic \<times> int" where
  "test_imbalance bt s d rb rc =
     (if rb = ref s \<and> dict_get d (ref s) = None then
        (case dict_get d (alt s) of
           Some e \<Rightarrow>
             (s\<lparr>report_alt := alt s @ '':'' @ str_int (allele_count e) @ '':.'',
                report_comment := report_comment s @ ''Only_Alt_Reads;'',
                report_other := ''.:.:.''\<rparr>, d, 1)
         | None \<Rightarrow>
             (s\<lparr>report_alt := ''.:.:.'',
                report_comment := report_comment s @ ''No_Ref_nor_Alt_Reads;'',
                report_other := ''.:.:.''\<rparr>, d, 1))
      else if int (length d) \<le> 1 then
        (s\<lparr>report_ref := ''.:.'', report_alt := ''.:.:.'',
           report_comment := ''Insufficient_Alleles;''\<rparr>, d, 1)
      else (s, binom_all bt rb rc d, 0))"

text \<open>"check if reads for designated variant have been found": the alternative report.\<close>

definition alt_report :: "(real \<Rightarrow> string) \<Rightarrow> snp \<Rightarrow> allelic \<Rightarrow> py_error + snp \<times> int" where
  "alt_report str_float s d =
     (case dict_get d (alt s) of
        None \<Rightarrow>
          Inr (s\<lparr>report_comment := report_comment s @ ''No_Alt_Reads;'',
                 report_alt := alt s @ '':0:.''\<rparr>, 1)
      | Some e \<Rightarrow>
          (case allele_pvalue e of
             None \<Rightarrow> Inl KeyError
           | Some p \<Rightarrow>
               Inr (s\<lparr>report_alt :=
                        alt s @ '':'' @ str_int (allele_count e) @ '':'' @ str_float p\<rparr>, 0)))"

text \<open>The report of the other variants.\<close>

fun other_report ::
  "(real \<Rightarrow> string) \<Rightarrow> string \<Rightarrow> string \<Rightarrow> allelic \<Rightarrow> string \<Rightarrow> py_error + string" where
  "other_report str_float rb a [] acc = Inr acc"
| "other_report str_float rb a ((test_base, e) # d) acc =
     (if test_base \<noteq> rb \<and> test_base \<noteq> a then
        (case allele_pvalue e of
           None \<Rightarrow> Inl KeyError
         | Some p \<Rightarrow>
             other_report str_float rb a d
               (acc @ test_base @ '':'' @ str_int (allele_count e) @ '':'' @ str_float p @ '';''))
      else other_report str_float rb a d acc)"

text \<open>
  The body of the loop of stages 3 to 5 for one SNP, with what it adds to
  \<open>not_queried_count\<close>.  \<open>del snp_dict[key]['reads']\<close> is the empty list here.
\<close>

definition split_and_test ::
  "(int \<Rightarrow> int \<Rightarrow> real) \<Rightarrow> (real \<Rightarrow> string) \<Rightarrow> snp \<Rightarrow> py_error + snp \<times> int" where
  "split_and_test bt str_float s0 =
     (let s = s0\<lparr>report_comment := [], report_ref := [], report_alt := [], report_other := []\<rparr>
      in if flag_sufficient_reads s = False then
           Inr (s\<lparr>report_ref := ''.:.'', report_alt := ''.:.:.'',
                  report_comment := ''Insufficient_Total_Reads;'',
                  report_other := ''.:.:.''\<rparr>, 1)
         else
           (case count_alleles (pos s) (reads s) [] of
              Inl e \<Rightarrow> Inl e
            | Inr d \<Rightarrow>
                (case reference_allele s d of
                   (s1, rb, rc) \<Rightarrow>
                     (case test_imbalance bt s1 d rb rc of
                        (s2, d2, n2) \<Rightarrow>
                          (case alt_report str_float s2 d2 of
                             Inl e \<Rightarrow> Inl e
                           | Inr (s3, n3) \<Rightarrow>
                               (case other_report str_float rb (alt s3) d2 (report_other s3) of
                                  Inl e \<Rightarrow> Inl e
                                | Inr ro \<Rightarrow>
                                    Inr (s3\<lparr>report_other := ro, allelic_dict := Some d2,
                                            reads := []\<rparr>, n2 + n3)))))))"

fun test_all ::
  "(int \<Rightarrow> int \<Rightarrow> real) \<Rightarrow> (real \<Rightarrow> string) \<Rightarrow> snp_dict \<Rightarrow> py_error + snp_dict \<times> int" where
  "test_all bt str_float [] = Inr ([], 0)"
| "test_all bt str_float ((key, s) # d) =
     (case split_and_test bt str_float s of
        Inl e \<Rightarrow> Inl e
      | Inr (s', n) \<Rightarrow>
          (case test_all bt str_float d of
             Inl e \<Rightarrow> Inl e
           | Inr (d', m) \<Rightarrow> Inr ((key, s') # d', n + m)))"

subsection \<open>Stage 6: false discovery rate\<close>

text \<open>\<open>isNumber\<close>: \<open>float(s)\<close> of a float never raises \<open>ValueError\<close>.\<close>

definition isNumber :: "real \<Rightarrow> bool" where
  "isNumber p = True"

text \<open>
  The condition of 6.1 for one SNP, operands evaluated from the left: \<open>Inr (Some p)\<close>
  when the SNP enters \<open>valid_tests_dict\<close> with p-value \<open>p\<close>.
\<close>

definition valid_test :: "snp \<Rightarrow> py_error + real option" where
  "valid_test s =
     (if \<not> flag_sufficient_reads s then Inr None
      else case allelic_dict s of
             None \<Rightarrow> Inl KeyError
           | Some d \<Rightarrow>
               (case dict_get d (alt s) of
                  None \<Rightarrow> Inl KeyError
                | Some e \<Rightarrow>
                    (case allele_pvalue e of
                       None \<Rightarrow> Inl KeyError
                     | Some p \<Rightarrow>
                         if isNumber p \<and> allele_count e > 0 \<and> report_comment s = []
                         then Inr (Some p) else Inr None)))"

fun valid_tests :: "snp_dict \<Rightarrow> (string \<times> real) list \<Rightarrow> py_error + (string \<times> real) list" where
  "valid_tests [] v = Inr v"
| "valid_tests ((key, s) # d) v =
     (case valid_test s of
        Inl e \<Rightarrow> Inl e
      | Inr None \<Rightarrow> valid_tests d v
      | Inr (Some p) \<Rightarrow> valid_tests d (dict_set v key p))"

text \<open>
  Modelled from the spec: the Benjamini-Hochberg correction.  The script calls
  \<open>statsmodels.stats.multitest.multipletests(pvalues, alpha=0.05, method='fdr_bh')[1]\<close>,
  a library routine that is not part of the repository.  The adjusted value of the
  p-value of rank \<open>k\<close> among \<open>n\<close> (ascending) is the least \<open>p\<^sub>j * n / j\<close> over the ranks
  \<open>j \<ge> k\<close>, capped at one, returned in the order of the input.
\<close>

definition argsort :: "real list \<Rightarrow> nat list" where
  "argsort pvals = map snd (sort_key fst (zip pvals [0..<length pvals]))"

fun cummin_right :: "real list \<Rightarrow> real list" where
  "cummin_right [] = []"
| "cummin_right (x # xs) = (case cummin_right xs of [] \<Rightarrow> [x] | y # ys \<Rightarrow> min x y # y # ys)"

fun scatter :: "(nat \<times> real) list \<Rightarrow> real list \<Rightarrow> real list" where
  "scatter [] out = out"
| "scatter ((i, v) # ivs) out = scatter ivs (out[i := v])"

definition fdr_bh :: "real list \<Rightarrow> real list" where
  "fdr_bh pvals =
     (let ntests = length pvals;
          sortind = argsort pvals;
          pvals_sorted = map (\<lambda>i. pvals ! i) sortind;
          ecdffactor = map (\<lambda>k. real k / real ntests) [1..<Suc ntests];
          pvals_corrected_raw = map (\<lambda>(p, f). p / f) (zip pvals_sorted ecdffactor);
          pvals_corrected = map (min 1) (cummin_right pvals_corrected_raw)
      in scatter (zip sortind pvals_corrected) (replicate ntests 0))"

text \<open>6.2: every entry of \<open>valid_tests_dict\<close> gets its q-value: key, p-value, q-value.\<close>

definition perform_fdr :: "(string \<times> real) list \<Rightarrow> (string \<times> real \<times> real) list" where
  "perform_fdr v =
     (let fdr_keys = map fst v;
          fdr_pvalues = map snd v;
          fdr_qvalues = fdr_bh fdr_pvalues
      in map (\<lambda>i. (fdr_keys ! i, fdr_pvalues ! i, fdr_qvalues ! i)) [0..<length fdr_keys])"

subsection \<open>Stage 7: sort and print\<close>

text \<open>
  The order of the output for \<open>--sortby pvalue\<close>:
  \<^verbatim>\<open>sorted_keys = [x for (y,x) in sorted(zip(sort_values, sort_keys))]\<close>
  \<open>sorted\<close> compares the pairs, so the key decides between equal values.  The order by
  position is not modelled.
\<close>

definition sort_values :: "(string \<times> real \<times> real) list \<Rightarrow> string list \<Rightarrow> real list" where
  "sort_values v ks = map (\<lambda>k. case dict_get v k of Some (p, q) \<Rightarrow> p | None \<Rightarrow> 1) ks"

definition sorted_keys :: "(string \<times> real \<times> real) list \<Rightarrow> string list \<Rightarrow> string list" where
  "sorted_keys v sort_keys = map snd (sort (zip (sort_values v sort_keys) sort_keys))"

definition TAB :: string where
  "TAB = [CHR 0x09]"

text \<open>The p-value and q-value columns of a line, as appended to \<open>output\<close>.\<close>

definition pq_columns :: "(real \<Rightarrow> string) \<Rightarrow> (string \<times> real \<times> real) list \<Rightarrow> string \<Rightarrow> string" where
  "pq_columns str_float v key =
     (case dict_get v key of
        Some (p, q) \<Rightarrow> TAB @ str_float p @ TAB @ str_float q
      | None \<Rightarrow> TAB @ ''.'' @ TAB @ ''.'')"

definition output_line ::
  "(real \<Rightarrow> string) \<Rightarrow> (string \<times> real \<times> real) list \<Rightarrow> string \<Rightarrow> snp \<Rightarrow> string" where
  "output_line str_float v key s =
     chr s @ TAB @ str_int (pos s) @ TAB @ str_int (pos s + 1) @ TAB @ snp_id s @ TAB
       @ ref s @ TAB @ alt s
       @ pq_columns str_float v key
       @ TAB @ report_ref s @ '':'' @ report_alt s
       @ (if report_other s \<noteq> [] then '':'' @ report_other s else [])
       @ TAB
       @ (if report_comment s = [] then ''.'' else report_comment s)"

fun print_lines ::
  "(real \<Rightarrow> string) \<Rightarrow> (string \<times> real \<times> real) list \<Rightarrow> snp_dict \<Rightarrow> string list
     \<Rightarrow> py_error + string list" where
  "print_lines str_float v d [] = Inr []"
| "print_lines str_float v d (key # ks) =
     (case dict_get d key of
        None \<Rightarrow> Inl KeyError
      | Some s \<Rightarrow>
          (case print_lines str_float v d ks of
             Inl e \<Rightarrow> Inl e
           | Inr out \<Rightarrow> Inr (output_line str_float v key s # out)))"

definition stats_line :: "int \<Rightarrow> int \<Rightarrow> string" where
  "stats_line total_count not_queried_count =
     ''# Total SNPs: '' @ str_int total_count @ ''  Queried: ''
       @ str_int (total_count - not_queried_count) @ ''  Not Queried: ''
       @ str_int not_queried_count"

subsection \<open>The whole script\<close>

text \<open>From the SNP lines and the alignment files to the printed lines, sorted by p-value.\<close>

definition allele_specific_dnase ::
  "(int \<Rightarrow> int \<Rightarrow> real) \<Rightarrow> (real \<Rightarrow> string) \<Rightarrow> config \<Rightarrow> bam list \<Rightarrow> snp_line list
     \<Rightarrow> py_error + string list" where
  "allele_specific_dnase bt str_float cfg bams ls =
     (case read_snps ls ([], 0) of
        (d0, indel_count) \<Rightarrow>
          (case extract_all cfg bams d0 of
             Inl e \<Rightarrow> Inl e
           | Inr d1 \<Rightarrow>
               (case test_all bt str_float (map (\<lambda>(key, s). (key, min_reads_gate cfg s)) d1) of
                  Inl e \<Rightarrow> Inl e
                | Inr (d2, not_queried_count) \<Rightarrow>
                    (case valid_tests d2 [] of
                       Inl e \<Rightarrow> Inl e
                     | Inr v \<Rightarrow>
                         (case print_lines str_float (perform_fdr v) d2
                                 (sorted_keys (perform_fdr v) (map fst d2)) of
                            Inl e \<Rightarrow> Inl e
                          | Inr out \<Rightarrow>
                              Inr (stats_line (int (length d2)) not_queried_count # out))))))"

text \<open>The sum of the counts of an \<open>allelic_dict\<close>.\<close>

definition sum_counts :: "allelic \<Rightarrow> int" where
  "sum_counts d = sum_list (map (\<lambda>(b, e). allele_count e) d)"

subsection \<open>Inputs used in the examples\<close>

text \<open>The defaults of the command line: two mismatches, quality 0, ten reads.\<close>

definition default_config :: config where
  "default_config =
     \<lparr>MAX_MISSMATCHES_PER_READ = 2, MIN_MAPPING_QUAL_AT_SNP = 0, MIN_READS_AT_SNP = 10\<rparr>"

text \<open>A read without mismatches, every base of quality 30.\<close>

definition plain_read :: "int \<Rightarrow> string \<Rightarrow> read_obs" where
  "plain_read start sq =
     \<lparr>reference_start = start, query_sequence = sq,
      query_alignment_qualities = replicate (length sq) 30, tag_NM = 0\<rparr>"

text \<open>The SNP \<open>rs1\<close> at position 100 of \<open>chr1\<close>.\<close>

definition rs1_line :: "string \<Rightarrow> string \<Rightarrow> snp_line" where
  "rs1_line r a =
     \<lparr>line_chr = ''chr1'', line_pos = 100, line_name = ''rs1'', line_ref = r, line_alt = a\<rparr>"

section \<open>Properties\<close>

lemma py_index_nonneg:
  "0 \<le> i \<Longrightarrow> i < int (length xs) \<Longrightarrow> py_index xs i = Inr (xs ! nat i)"
  by (simp add: py_index_def)

lemma py_index_neg:
  "i < 0 \<Longrightarrow> - int (length xs) \<le> i \<Longrightarrow> py_index xs i = Inr (xs ! (length xs - nat (- i)))"
proof -
  assume a: "i < 0" "- int (length xs) \<le> i"
  then have "nat (int (length xs) + i) = length xs - nat (- i)" by linarith
  with a show ?thesis by (simp add: py_index_def)
qed

subsection \<open>Evaluation of the examples\<close>

lemma replicate_2: "replicate 2 x = [x, x]"
  by (simp add: numeral_eq_Suc)

lemma replicate_8: "replicate 8 x = [x, x, x, x, x, x, x, x]"
  by (simp add: numeral_eq_Suc)

lemma replicate_9: "replicate 9 x = [x, x, x, x, x, x, x, x, x]"
  by (simp add: numeral_eq_Suc)

lemma str_int_2: "str_int 2 = ''2''"
  by (simp add: str_int_def str_nat.simps digit_char_def)

lemma str_int_8: "str_int 8 = ''8''"
  by (simp add: str_int_def str_nat.simps digit_char_def)

subsection \<open>Dictionaries\<close>

lemma dict_get_set: "dict_get (dict_set d k v) k' = (if k = k' then Some v else dict_get d k')"
  by (induction d) auto

lemma dict_get_None_iff: "(dict_get d k = None) = (k \<notin> fst ` set d)"
  by (induction d) (auto split: if_splits)

lemma dict_get_distinct: "distinct (map fst d) \<Longrightarrow> (k, v) \<in> set d \<Longrightarrow> dict_get d k = Some v"
  by (induction d) (auto simp: rev_image_eqI)

lemma valid_tests_get:
  "distinct (map fst d) \<Longrightarrow> valid_tests d v0 = Inr v \<Longrightarrow>
   dict_get v k =
     (case dict_get d k of
        None \<Rightarrow> dict_get v0 k
      | Some s \<Rightarrow> (case valid_test s of Inr (Some p) \<Rightarrow> Some p | _ \<Rightarrow> dict_get v0 k))"
proof (induction d arbitrary: v0)
  case Nil
  then show ?case by simp
next
  case (Cons a d)
  obtain key s where a: "a = (key, s)" by (cases a)
  have nk: "dict_get d key = None" using Cons.prems(1) a by (simp add: dict_get_None_iff)
  show ?case
  proof (cases "valid_test s")
    case (Inl e)
    then show ?thesis using Cons.prems a by simp
  next
    case (Inr opt)
    show ?thesis
    proof (cases opt)
      case None
      then show ?thesis using Cons.prems a Inr Cons.IH [of v0] nk
        by (auto split: option.splits)
    next
      case (Some p)
      then show ?thesis using Cons.prems a Inr Cons.IH [of "dict_set v0 key p"] nk
        by (auto simp: dict_get_set split: option.splits sum.splits)
    qed
  qed
qed

lemma length_cummin_right: "length (cummin_right xs) = length xs"
  by (induction xs) (auto split: list.splits)

lemma length_scatter: "length (scatter ivs out) = length out"
  by (induction ivs arbitrary: out) auto

lemma length_fdr_bh: "length (fdr_bh ps) = length ps"
  by (simp add: fdr_bh_def Let_def length_scatter)

lemma keys_perform_fdr: "map fst (perform_fdr v) = map fst v"
proof -
  have "map ((!) (map fst v)) [0..<length (map fst v)] = map fst v" by (rule map_nth)
  then show ?thesis by (simp add: perform_fdr_def Let_def o_def)
qed

lemma perform_fdr_None: "(dict_get (perform_fdr v) k = None) = (dict_get v k = None)"
  using keys_perform_fdr [of v] by (metis dict_get_None_iff set_map)

subsection \<open>The pool of valid tests\<close>

lemma pq_columns_outside:
  "dict_get v key = None \<Longrightarrow> pq_columns str_float (perform_fdr v) key = TAB @ ''.'' @ TAB @ ''.''"
  using perform_fdr_None [of v key] by (simp add: pq_columns_def)

lemma valid_test_Some_iff:
  "(valid_test s = Inr (Some p)) =
     (flag_sufficient_reads s
      \<and> (\<exists>d e. allelic_dict s = Some d \<and> dict_get d (alt s) = Some e
                 \<and> allele_pvalue e = Some p \<and> isNumber p \<and> 0 < allele_count e)
      \<and> report_comment s = [])"
  by (auto simp: valid_test_def split: option.splits)

lemma pool_member:
  assumes "distinct (map fst d)" "valid_tests d [] = Inr v" "(key, s) \<in> set d"
  shows "(dict_get v key = Some p) = (valid_test s = Inr (Some p))"
proof -
  have "dict_get d key = Some s" using assms(1,3) by (rule dict_get_distinct)
  then show ?thesis using valid_tests_get [OF assms(1,2), of key]
    by (auto split: sum.splits option.splits)
qed

text \<open>
  Where 6.1 completes on a dictionary of SNPs with distinct keys, a SNP is in
  \<open>valid_tests_dict\<close> exactly when it has sufficient reads, the entry of its alternative
  base has a p-value that is a number and a count above zero, and its comment is empty;
  a SNP outside \<open>valid_tests_dict\<close> gets \<open>.\<close> in the p-value and in the q-value
  column, whatever p-values its \<open>allelic_dict\<close> holds.
\<close>

lemma pool_membership_when_complete:
  assumes "distinct (map fst d)" and "valid_tests d [] = Inr v" and "(key, s) \<in> set d"
  shows "(dict_get v key \<noteq> None) =
           (flag_sufficient_reads s
            \<and> (\<exists>ad e p. allelic_dict s = Some ad \<and> dict_get ad (alt s) = Some e
                       \<and> allele_pvalue e = Some p \<and> isNumber p \<and> 0 < allele_count e)
            \<and> report_comment s = [])
         \<and> (dict_get v key = None \<longrightarrow>
              pq_columns str_float (perform_fdr v) key = TAB @ ''.'' @ TAB @ ''.'')"
proof -
  have "(dict_get v key \<noteq> None) = (\<exists>p. valid_test s = Inr (Some p))"
    using pool_member [OF assms] by auto
  then show ?thesis
    by (simp add: valid_test_Some_iff pq_columns_outside) blast
qed

text \<open>
  Two SNPs with sufficient reads and a tested alternative base: \<open>rs1\<close> with an empty
  comment enters the pool, \<open>rs2\<close>, tested relative to a substitute base, does not and
  prints \<open>.\<close> twice although its alternative base has the p-value 1/8.
\<close>

lemma pool_membership_example:
  "valid_tests
     [(''rs1'', (new_snp (rs1_line ''A'' ''G''))
         \<lparr>flag_sufficient_reads := True,
          allelic_dict := Some [(''A'', \<lparr>allele_count = 8, allele_pvalue = None\<rparr>),
                                (''G'', \<lparr>allele_count = 2, allele_pvalue = Some (1/8)\<rparr>)]\<rparr>),
      (''rs2'', (new_snp (rs1_line ''A'' ''G''))
         \<lparr>flag_sufficient_reads := True,
          allelic_dict := Some [(''T'', \<lparr>allele_count = 8, allele_pvalue = None\<rparr>),
                                (''G'', \<lparr>allele_count = 2, allele_pvalue = Some (1/8)\<rparr>)],
          report_comment := ''No_Ref_Reads;Calc_rel_to_T;''\<rparr>)] []
     = Inr [(''rs1'', 1/8)]
   \<and> dict_get [(''rs1'', 1/8::real)] ''rs1'' \<noteq> None
   \<and> dict_get [(''rs1'', 1/8::real)] ''rs2'' = None
   \<and> pq_columns (\<lambda>p. ''1.0'') (perform_fdr [(''rs1'', 1/8)]) ''rs2'' = TAB @ ''.'' @ TAB @ ''.''"
  using pool_membership_when_complete
    [of "[(''rs1'', (new_snp (rs1_line ''A'' ''G''))
         \<lparr>flag_sufficient_reads := True,
          allelic_dict := Some [(''A'', \<lparr>allele_count = 8, allele_pvalue = None\<rparr>),
                                (''G'', \<lparr>allele_count = 2, allele_pvalue = Some (1/8)\<rparr>)]\<rparr>),
      (''rs2'', (new_snp (rs1_line ''A'' ''G''))
         \<lparr>flag_sufficient_reads := True,
          allelic_dict := Some [(''T'', \<lparr>allele_count = 8, allele_pvalue = None\<rparr>),
                                (''G'', \<lparr>allele_count = 2, allele_pvalue = Some (1/8)\<rparr>)],
          report_comment := ''No_Ref_Reads;Calc_rel_to_T;''\<rparr>)]"
        "[(''rs1'', 1/8)]" "''rs2''"
        "(new_snp (rs1_line ''A'' ''G''))
         \<lparr>flag_sufficient_reads := True,
          allelic_dict := Some [(''T'', \<lparr>allele_count = 8, allele_pvalue = None\<rparr>),
                                (''G'', \<lparr>allele_count = 2, allele_pvalue = Some (1/8)\<rparr>)],
          report_comment := ''No_Ref_Reads;Calc_rel_to_T;''\<rparr>" "\<lambda>p. ''1.0''"]
  by (simp add: new_snp_def rs1_line_def valid_test_def isNumber_def)

subsection \<open>The minimum number of reads and the allele counts\<close>

lemma count_alleles_get:
  "count_alleles p rs d = Inr d' \<Longrightarrow>
   dict_get d' b =
     (case dict_get d b of
        None \<Rightarrow>
          (if filter (\<lambda>r. base_snp p r = Inr b) rs = [] then None
           else Some \<lparr>allele_count = int (length (filter (\<lambda>r. base_snp p r = Inr b) rs)),
                      allele_pvalue = None\<rparr>)
      | Some e \<Rightarrow>
          Some (e\<lparr>allele_count :=
                    allele_count e + int (length (filter (\<lambda>r. base_snp p r = Inr b) rs))\<rparr>))"
proof (induction rs arbitrary: d)
  case Nil
  then show ?case by (simp split: option.splits)
next
  case (Cons r rs)
  then show ?case
    by (auto simp: dict_get_set split: sum.splits option.splits if_splits)
qed

lemma count_alleles_total:
  "\<forall>r \<in> set rs. \<exists>b. base_snp p r = Inr b \<Longrightarrow> \<exists>d'. count_alleles p rs d = Inr d'"
  by (induction rs arbitrary: d) (auto split: sum.splits option.splits)

lemma sum_counts_set_new:
  "dict_get d k = None \<Longrightarrow> sum_counts (dict_set d k e) = sum_counts d + allele_count e"
  by (induction d) (auto simp: sum_counts_def split: if_splits)

lemma sum_counts_set_old:
  "dict_get d k = Some e0 \<Longrightarrow>
   sum_counts (dict_set d k e) = sum_counts d - allele_count e0 + allele_count e"
  by (induction d) (auto simp: sum_counts_def split: if_splits)

lemma count_alleles_sum:
  "count_alleles p rs d = Inr d' \<Longrightarrow> sum_counts d' = sum_counts d + int (length rs)"
proof (induction rs arbitrary: d)
  case Nil
  then show ?case by simp
next
  case (Cons r rs)
  then show ?case
    by (auto simp: sum_counts_set_new sum_counts_set_old split: sum.splits option.splits)
qed

lemma counts_binom_all:
  "map (\<lambda>(k, e). (k, allele_count e)) (binom_all bt rb rc d) = map (\<lambda>(k, e). (k, allele_count e)) d"
  by (induction d) (auto simp: binom_all_def)

lemma counts_test_imbalance:
  "test_imbalance bt s1 d rb rc = (s2, d2, n2) \<Longrightarrow>
   map (\<lambda>(k, e). (k, allele_count e)) d2 = map (\<lambda>(k, e). (k, allele_count e)) d"
  by (auto simp: test_imbalance_def counts_binom_all split: if_splits option.splits)

lemma dict_get_counts:
  "map_option allele_count (dict_get d b) = dict_get (map (\<lambda>(k, e). (k, allele_count e)) d) b"
  by (induction d) auto

lemma sum_counts_counts:
  "sum_counts d = sum_list (map snd (map (\<lambda>(k, e). (k, allele_count e)) d))"
  by (induction d) (auto simp: sum_counts_def)

lemma split_and_test_count_error:
  "flag_sufficient_reads s \<Longrightarrow> count_alleles (pos s) (reads s) [] = Inl e \<Longrightarrow>
   split_and_test bt str_float s = Inl e"
  by (simp add: split_and_test_def)

lemma split_and_test_sufficient:
  assumes "flag_sufficient_reads s" and "split_and_test bt str_float s = Inr (s', n)"
  shows "\<exists>d d2. count_alleles (pos s) (reads s) [] = Inr d \<and> allelic_dict s' = Some d2
           \<and> map (\<lambda>(k, e). (k, allele_count e)) d2 = map (\<lambda>(k, e). (k, allele_count e)) d
           \<and> flag_sufficient_reads s' \<and> reads s' = []"
proof -
  let ?s = "s\<lparr>report_comment := [], report_ref := [], report_alt := [], report_other := []\<rparr>"
  obtain d where d: "count_alleles (pos s) (reads s) [] = Inr d"
    using assms by (cases "count_alleles (pos s) (reads s) []") (auto simp: split_and_test_def)
  obtain s1 rb rc where r: "reference_allele ?s d = (s1, rb, rc)"
    by (cases "reference_allele ?s d") auto
  obtain s2 d2 n2 where t: "test_imbalance bt s1 d rb rc = (s2, d2, n2)"
    by (cases "test_imbalance bt s1 d rb rc") auto
  have f1: "flag_sufficient_reads s1" using r assms(1)
    by (auto simp: reference_allele_def split: option.splits prod.splits)
  have f2: "flag_sufficient_reads s2" using t f1
    by (auto simp: test_imbalance_def split: if_splits option.splits)
  obtain s3 n3 where a: "alt_report str_float s2 d2 = Inr (s3, n3)"
    using assms d r t by (cases "alt_report str_float s2 d2") (auto simp: split_and_test_def)
  have f3: "flag_sufficient_reads s3" using a f2
    by (auto simp: alt_report_def split: option.splits)
  obtain ro where o: "other_report str_float rb (alt s3) d2 (report_other s3) = Inr ro"
    using assms d r t a
    by (cases "other_report str_float rb (alt s3) d2 (report_other s3)") (auto simp: split_and_test_def)
  have "s' = s3\<lparr>report_other := ro, allelic_dict := Some d2, reads := []\<rparr>"
    using assms d r t a o by (simp add: split_and_test_def)
  then show ?thesis using d f3 counts_test_imbalance [OF t] by auto
qed

lemma split_and_test_comment:
  assumes "flag_sufficient_reads s" and "split_and_test bt str_float s = Inr (s', n)"
  shows "report_comment s' \<noteq> ''Insufficient_Total_Reads;''"
  using assms
  by (auto simp: split_and_test_def reference_allele_def test_imbalance_def alt_report_def
      split: sum.splits option.splits prod.splits if_splits)

text \<open>
  C7.  Below \<open>MIN_READS_AT_SNP\<close> the SNP is flagged insufficient, its reads are dropped
  and none is counted (\<open>allelic_dict\<close> is untouched); it gets the fixed report, counts
  once as not queried, is no valid test, and prints \<open>.\<close> for p-value and q-value.
  At or above the threshold the flag is set and the reads stay; the count then has, for
  every base, as many as there are reads showing that base at offset
  \<open>pos - reference_start\<close>, in total one per read, and it exists whenever every read
  has a base at that offset.  The loop body of stages 3 to 5 counts such a SNP: it fails
  where the count fails, and where it returns, the SNP is still flagged sufficient, its
  comment is not \<open>Insufficient_Total_Reads;\<close>, and its \<open>allelic_dict\<close> holds exactly
  those counts.
\<close>

theorem coverage_gate:
  "(int (length (reads s)) < MIN_READS_AT_SNP cfg \<longrightarrow>
      flag_sufficient_reads (min_reads_gate cfg s) = False
      \<and> reads (min_reads_gate cfg s) = []
      \<and> (\<exists>s'. split_and_test bt str_float (min_reads_gate cfg s) = Inr (s', 1)
             \<and> report_ref s' = ''.:.'' \<and> report_alt s' = ''.:.:.''
             \<and> report_other s' = ''.:.:.''
             \<and> report_comment s' = ''Insufficient_Total_Reads;''
             \<and> allelic_dict s' = allelic_dict s
             \<and> valid_test s' = Inr None
             \<and> (\<forall>d v key. distinct (map fst d) \<and> (key, s') \<in> set d \<and> valid_tests d [] = Inr v
                   \<longrightarrow> dict_get v key = None
                       \<and> pq_columns str_float (perform_fdr v) key = TAB @ ''.'' @ TAB @ ''.'')))
   \<and> (\<not> int (length (reads s)) < MIN_READS_AT_SNP cfg \<longrightarrow>
      flag_sufficient_reads (min_reads_gate cfg s) = True
      \<and> reads (min_reads_gate cfg s) = reads s
      \<and> ((\<forall>r \<in> set (reads s). \<exists>b. base_snp (pos s) r = Inr b) \<longrightarrow>
           (\<exists>d. count_alleles (pos s) (reads s) [] = Inr d))
      \<and> (\<forall>d. count_alleles (pos s) (reads s) [] = Inr d \<longrightarrow>
            sum_counts d = int (length (reads s))
            \<and> (\<forall>b. dict_get d b =
                  (if filter (\<lambda>r. base_snp (pos s) r = Inr b) (reads s) = [] then None
                   else Some \<lparr>allele_count =
                                 int (length (filter (\<lambda>r. base_snp (pos s) r = Inr b) (reads s))),
                               allele_pvalue = None\<rparr>)))
      \<and> (\<forall>e. count_alleles (pos s) (reads s) [] = Inl e \<longrightarrow>
            split_and_test bt str_float (min_reads_gate cfg s) = Inl e)
      \<and> (\<forall>s' n. split_and_test bt str_float (min_reads_gate cfg s) = Inr (s', n) \<longrightarrow>
            flag_sufficient_reads s' = True
            \<and> report_comment s' \<noteq> ''Insufficient_Total_Reads;''
            \<and> (\<exists>d. allelic_dict s' = Some d
                  \<and> sum_counts d = int (length (reads s))
                  \<and> (\<forall>b. map_option allele_count (dict_get d b) =
                        (if filter (\<lambda>r. base_snp (pos s) r = Inr b) (reads s) = [] then None
                         else Some (int (length (filter (\<lambda>r. base_snp (pos s) r = Inr b)
                                                   (reads s)))))))))"
proof (intro conjI impI)
  assume lt: "int (length (reads s)) < MIN_READS_AT_SNP cfg"
  show "flag_sufficient_reads (min_reads_gate cfg s) = False"
    using lt by (simp add: min_reads_gate_def)
  show "reads (min_reads_gate cfg s) = []"
    using lt by (simp add: min_reads_gate_def)
  let ?s' = "s\<lparr>flag_sufficient_reads := False, reads := [], report_comment := ''Insufficient_Total_Reads;'',
               report_ref := ''.:.'', report_alt := ''.:.:.'', report_other := ''.:.:.''\<rparr>"
  have run: "split_and_test bt str_float (min_reads_gate cfg s) = Inr (?s', 1)"
    using lt by (simp add: min_reads_gate_def split_and_test_def)
  have vt: "valid_test ?s' = Inr None" by (simp add: valid_test_def)
  have pool: "dict_get v key = None
              \<and> pq_columns str_float (perform_fdr v) key = TAB @ ''.'' @ TAB @ ''.''"
    if "distinct (map fst d) \<and> (key, ?s') \<in> set d \<and> valid_tests d [] = Inr v" for d v key
  proof -
    have "dict_get d key = Some ?s'" using that by (intro dict_get_distinct) auto
    then have "dict_get v key = None"
      using valid_tests_get [of d "[]" v key] that vt by simp
    then show ?thesis by (simp add: pq_columns_outside)
  qed
  show "\<exists>s'. split_and_test bt str_float (min_reads_gate cfg s) = Inr (s', 1)
             \<and> report_ref s' = ''.:.'' \<and> report_alt s' = ''.:.:.''
             \<and> report_other s' = ''.:.:.''
             \<and> report_comment s' = ''Insufficient_Total_Reads;''
             \<and> allelic_dict s' = allelic_dict s
             \<and> valid_test s' = Inr None
             \<and> (\<forall>d v key. distinct (map fst d) \<and> (key, s') \<in> set d \<and> valid_tests d [] = Inr v
                   \<longrightarrow> dict_get v key = None
                       \<and> pq_columns str_float (perform_fdr v) key = TAB @ ''.'' @ TAB @ ''.'')"
    apply (rule exI [of _ ?s'])
    using run vt pool by simp
next
  assume ge: "\<not> int (length (reads s)) < MIN_READS_AT_SNP cfg"
  let ?g = "min_reads_gate cfg s"
  have g: "?g = s\<lparr>flag_sufficient_reads := True\<rparr>" using ge by (simp add: min_reads_gate_def)
  show "flag_sufficient_reads ?g = True" using g by simp
  show "reads ?g = reads s" using g by simp
  show "\<exists>d. count_alleles (pos s) (reads s) [] = Inr d"
    if "\<forall>r \<in> set (reads s). \<exists>b. base_snp (pos s) r = Inr b"
    using that by (rule count_alleles_total)
  show "\<forall>d. count_alleles (pos s) (reads s) [] = Inr d \<longrightarrow>
            sum_counts d = int (length (reads s))
            \<and> (\<forall>b. dict_get d b =
                  (if filter (\<lambda>r. base_snp (pos s) r = Inr b) (reads s) = [] then None
                   else Some \<lparr>allele_count =
                                 int (length (filter (\<lambda>r. base_snp (pos s) r = Inr b) (reads s))),
                               allele_pvalue = None\<rparr>))"
    using count_alleles_sum [of "pos s" "reads s" "[]"] count_alleles_get [of "pos s" "reads s" "[]"]
    by (simp add: sum_counts_def)
  show "\<forall>e. count_alleles (pos s) (reads s) [] = Inl e \<longrightarrow>
            split_and_test bt str_float ?g = Inl e"
    using split_and_test_count_error [of ?g _ bt str_float] g by simp
  show "\<forall>s' n. split_and_test bt str_float ?g = Inr (s', n) \<longrightarrow>
            flag_sufficient_reads s' = True
            \<and> report_comment s' \<noteq> ''Insufficient_Total_Reads;''
            \<and> (\<exists>d. allelic_dict s' = Some d
                  \<and> sum_counts d = int (length (reads s))
                  \<and> (\<forall>b. map_option allele_count (dict_get d b) =
                        (if filter (\<lambda>r. base_snp (pos s) r = Inr b) (reads s) = [] then None
                         else Some (int (length (filter (\<lambda>r. base_snp (pos s) r = Inr b)
                                                   (reads s)))))))"
  proof (intro allI impI)
    fix s' n
    assume run: "split_and_test bt str_float ?g = Inr (s', n)"
    have fl: "flag_sufficient_reads ?g" using g by simp
    from split_and_test_sufficient [OF fl run]
    obtain d d2 where d: "count_alleles (pos s) (reads s) [] = Inr d"
        and d2: "allelic_dict s' = Some d2"
        and eq: "map (\<lambda>(k, e). (k, allele_count e)) d2 = map (\<lambda>(k, e). (k, allele_count e)) d"
        and f: "flag_sufficient_reads s'"
      using g by auto
    have sm: "sum_counts d2 = int (length (reads s))"
      using count_alleles_sum [OF d] eq by (simp add: sum_counts_counts)
    have gt: "map_option allele_count (dict_get d2 b) =
                (if filter (\<lambda>r. base_snp (pos s) r = Inr b) (reads s) = [] then None
                 else Some (int (length (filter (\<lambda>r. base_snp (pos s) r = Inr b) (reads s)))))"
      for b
    proof -
      have "map_option allele_count (dict_get d2 b) = map_option allele_count (dict_get d b)"
        using eq by (simp add: dict_get_counts)
      then show ?thesis using count_alleles_get [OF d, of b] by simp
    qed
    show "flag_sufficient_reads s' = True
            \<and> report_comment s' \<noteq> ''Insufficient_Total_Reads;''
            \<and> (\<exists>d. allelic_dict s' = Some d
                  \<and> sum_counts d = int (length (reads s))
                  \<and> (\<forall>b. map_option allele_count (dict_get d b) =
                        (if filter (\<lambda>r. base_snp (pos s) r = Inr b) (reads s) = [] then None
                         else Some (int (length (filter (\<lambda>r. base_snp (pos s) r = Inr b)
                                                   (reads s)))))))"
      using f d2 sm gt split_and_test_comment [OF fl run] by simp
  qed
qed

text \<open>
  Nine reads under the default threshold of ten, and ten reads of which eight show \<open>A\<close>
  and two, starting one place earlier, show \<open>G\<close>: the second SNP leaves the loop body
  with the counts 8 and 2 in its \<open>allelic_dict\<close>.
\<close>

theorem coverage_gate_witness:
  "int (length (reads ((new_snp (rs1_line ''A'' ''G''))\<lparr>reads := replicate 9 (plain_read 100 ''A'')\<rparr>)))
     < MIN_READS_AT_SNP default_config
   \<and> flag_sufficient_reads (min_reads_gate default_config
        ((new_snp (rs1_line ''A'' ''G''))\<lparr>reads := replicate 9 (plain_read 100 ''A'')\<rparr>)) = False
   \<and> (\<exists>s'. split_and_test (\<lambda>k n. 1) (\<lambda>p. ''1.0'') (min_reads_gate default_config
        ((new_snp (rs1_line ''A'' ''G''))\<lparr>reads := replicate 9 (plain_read 100 ''A'')\<rparr>)) = Inr (s', 1)
        \<and> report_comment s' = ''Insufficient_Total_Reads;'' \<and> valid_test s' = Inr None)
   \<and> \<not> int (length (reads ((new_snp (rs1_line ''A'' ''G''))
           \<lparr>reads := replicate 8 (plain_read 100 ''A'') @ replicate 2 (plain_read 99 ''TG'')\<rparr>)))
         < MIN_READS_AT_SNP default_config
   \<and> flag_sufficient_reads (min_reads_gate default_config
        ((new_snp (rs1_line ''A'' ''G''))
           \<lparr>reads := replicate 8 (plain_read 100 ''A'') @ replicate 2 (plain_read 99 ''TG'')\<rparr>)) = True
   \<and> count_alleles 100 (replicate 8 (plain_read 100 ''A'') @ replicate 2 (plain_read 99 ''TG'')) []
       = Inr [(''A'', \<lparr>allele_count = 8, allele_pvalue = None\<rparr>),
              (''G'', \<lparr>allele_count = 2, allele_pvalue = None\<rparr>)]
   \<and> (\<exists>s'. split_and_test (\<lambda>k n. 1) (\<lambda>p. ''1.0'') (min_reads_gate default_config
        ((new_snp (rs1_line ''A'' ''G''))
           \<lparr>reads := replicate 8 (plain_read 100 ''A'') @ replicate 2 (plain_read 99 ''TG'')\<rparr>))
          = Inr (s', 0)
        \<and> report_comment s' = []
        \<and> report_ref s' = ''A:8'' \<and> report_alt s' = ''G:2:1.0''
        \<and> allelic_dict s' = Some [(''A'', \<lparr>allele_count = 8, allele_pvalue = None\<rparr>),
                                   (''G'', \<lparr>allele_count = 2, allele_pvalue = Some 1\<rparr>)])"
proof -
  let ?s9 = "(new_snp (rs1_line ''A'' ''G''))\<lparr>reads := replicate 9 (plain_read 100 ''A'')\<rparr>"
  let ?s10 = "(new_snp (rs1_line ''A'' ''G''))
           \<lparr>reads := replicate 8 (plain_read 100 ''A'') @ replicate 2 (plain_read 99 ''TG'')\<rparr>"
  have lt: "int (length (reads ?s9)) < MIN_READS_AT_SNP default_config"
    by (simp add: default_config_def)
  have ge: "\<not> int (length (reads ?s10)) < MIN_READS_AT_SNP default_config"
    by (simp add: default_config_def)
  note below = coverage_gate
    [of ?s9 default_config "\<lambda>k n. 1" "\<lambda>p. ''1.0''", THEN conjunct1, THEN mp, OF lt]
  note above = coverage_gate
    [of ?s10 default_config "\<lambda>k n. 1" "\<lambda>p. ''1.0''", THEN conjunct2, THEN mp, OF ge]
  have f9: "flag_sufficient_reads (min_reads_gate default_config ?s9) = False"
    using below by (rule conjunct1)
  have r9: "\<exists>s'. split_and_test (\<lambda>k n. 1) (\<lambda>p. ''1.0'') (min_reads_gate default_config ?s9) = Inr (s', 1)
        \<and> report_comment s' = ''Insufficient_Total_Reads;'' \<and> valid_test s' = Inr None"
    using below by blast
  have f10: "flag_sufficient_reads (min_reads_gate default_config ?s10) = True"
    using above by (rule conjunct1)
  have c10: "count_alleles 100 (replicate 8 (plain_read 100 ''A'') @ replicate 2 (plain_read 99 ''TG'')) []
       = Inr [(''A'', \<lparr>allele_count = 8, allele_pvalue = None\<rparr>),
              (''G'', \<lparr>allele_count = 2, allele_pvalue = None\<rparr>)]"
    by (simp add: plain_read_def base_snp_def py_index_def replicate_8 replicate_2)
  have r10: "\<exists>s'. split_and_test (\<lambda>k n. 1) (\<lambda>p. ''1.0'') (min_reads_gate default_config ?s10)
          = Inr (s', 0)
        \<and> report_comment s' = []
        \<and> report_ref s' = ''A:8'' \<and> report_alt s' = ''G:2:1.0''
        \<and> allelic_dict s' = Some [(''A'', \<lparr>allele_count = 8, allele_pvalue = None\<rparr>),
                                   (''G'', \<lparr>allele_count = 2, allele_pvalue = Some 1\<rparr>)]"
    by (simp add: default_config_def new_snp_def rs1_line_def plain_read_def min_reads_gate_def
        split_and_test_def base_snp_def py_index_def replicate_8 replicate_2
        reference_allele_def test_imbalance_def binom_all_def alt_report_def
        str_int_8 str_int_2)
  show ?thesis using lt f9 r9 ge f10 c10 r10 by blast
qed

subsection \<open>Only one base present\<close>

lemma count_alleles_same:
  "\<forall>r \<in> set rs. base_snp p r = Inr b \<Longrightarrow>
   count_alleles p rs [(b, \<lparr>allele_count = c, allele_pvalue = None\<rparr>)]
     = Inr [(b, \<lparr>allele_count = c + int (length rs), allele_pvalue = None\<rparr>)]"
  by (induction rs arbitrary: c) (auto simp: add.assoc)

lemma count_alleles_only:
  assumes "rs \<noteq> []" and "\<forall>r \<in> set rs. base_snp p r = Inr b"
  shows "count_alleles p rs [] = Inr [(b, \<lparr>allele_count = int (length rs), allele_pvalue = None\<rparr>)]"
proof -
  obtain r rs' where rs: "rs = r # rs'" using assms(1) by (cases rs) auto
  have "count_alleles p rs [] = count_alleles p rs' [(b, \<lparr>allele_count = 1, allele_pvalue = None\<rparr>)]"
    using assms(2) rs by simp
  also have "\<dots> = Inr [(b, \<lparr>allele_count = 1 + int (length rs'), allele_pvalue = None\<rparr>)]"
    using assms(2) rs by (intro count_alleles_same) simp
  finally show ?thesis using rs by simp
qed

text \<open>
  C6 (amended).  A SNP with sufficient reads that all show the reference base, with an
  alternative base different from it: the count holds the reference base alone, the
  branch "only one base is present" sets the reference report to \<open>.:.\<close>, the alternative
  report to \<open>.:.:.\<close> and the comment to \<open>Insufficient_Alleles;\<close> and leaves the
  dictionary as it is (no binomial test).  The alternative report that follows in the same
  loop body then finds no reads for the alternative base: at the end of the body the
  comment is \<open>Insufficient_Alleles;No_Alt_Reads;\<close>, the alternative report is
  \<open><alt>:0:.\<close>, and the SNP counts twice as not queried.
\<close>

theorem only_reference_observed:
  assumes "flag_sufficient_reads s" and "reads s \<noteq> []"
    and "\<forall>r \<in> set (reads s). base_snp (pos s) r = Inr (ref s)"
    and "alt s \<noteq> ref s"
  shows "count_alleles (pos s) (reads s) []
           = Inr [(ref s, \<lparr>allele_count = int (length (reads s)), allele_pvalue = None\<rparr>)]
         \<and> test_imbalance bt s1
              [(ref s, \<lparr>allele_count = int (length (reads s)), allele_pvalue = None\<rparr>)]
              (ref s) (int (length (reads s)))
             = (s1\<lparr>report_ref := ''.:.'', report_alt := ''.:.:.'',
                    report_comment := ''Insufficient_Alleles;''\<rparr>,
                [(ref s, \<lparr>allele_count = int (length (reads s)), allele_pvalue = None\<rparr>)], 1)
         \<and> split_and_test bt str_float s
             = Inr (s\<lparr>report_comment := ''Insufficient_Alleles;No_Alt_Reads;'',
                      report_ref := ''.:.'', report_alt := alt s @ '':0:.'', report_other := [],
                      allelic_dict :=
                        Some [(ref s, \<lparr>allele_count = int (length (reads s)), allele_pvalue = None\<rparr>)],
                      reads := []\<rparr>, 2)"
proof -
  let ?d = "[(ref s, \<lparr>allele_count = int (length (reads s)), allele_pvalue = None\<rparr>)]"
  have c: "count_alleles (pos s) (reads s) [] = Inr ?d"
    using assms(2,3) by (rule count_alleles_only)
  have t: "test_imbalance bt s1 ?d (ref s) (int (length (reads s)))
             = (s1\<lparr>report_ref := ''.:.'', report_alt := ''.:.:.'',
                    report_comment := ''Insufficient_Alleles;''\<rparr>, ?d, 1)"
    by (simp add: test_imbalance_def)
  have r: "split_and_test bt str_float s
             = Inr (s\<lparr>report_comment := ''Insufficient_Alleles;No_Alt_Reads;'',
                      report_ref := ''.:.'', report_alt := alt s @ '':0:.'', report_other := [],
                      allelic_dict := Some ?d, reads := []\<rparr>, 2)"
    using assms(1,4) c
    by (simp add: split_and_test_def reference_allele_def test_imbalance_def alt_report_def)
  show ?thesis using c t r by simp
qed


theorem only_reference_observed_witness:
  "split_and_test (\<lambda>k n. 1) (\<lambda>p. ''1.0'')
      ((new_snp (rs1_line ''A'' ''G''))
         \<lparr>reads := replicate 10 (plain_read 100 ''A''), flag_sufficient_reads := True\<rparr>)
   = Inr ((new_snp (rs1_line ''A'' ''G''))
         \<lparr>reads := [], flag_sufficient_reads := True,
          allelic_dict := Some [(''A'', \<lparr>allele_count = 10, allele_pvalue = None\<rparr>)],
          report_comment := ''Insufficient_Alleles;No_Alt_Reads;'',
          report_ref := ''.:.'', report_alt := ''G:0:.''\<rparr>, 2)"
  using only_reference_observed
    [of "(new_snp (rs1_line ''A'' ''G''))
         \<lparr>reads := replicate 10 (plain_read 100 ''A''), flag_sufficient_reads := True\<rparr>"
        "\<lambda>k n. 1" "new_snp (rs1_line ''A'' ''G'')" "\<lambda>p. ''1.0''"]
  by (simp add: new_snp_def rs1_line_def plain_read_def base_snp_def py_index_def)

text \<open>
  The claim as stated fails: for ten reads showing the reference base \<open>A\<close> the comment
  is not \<open>Insufficient_Alleles;\<close> and the alternative report is not \<open>.:.:.\<close>.
\<close>

theorem single_allele_comment_counterexample:
  "\<exists>s'. split_and_test (\<lambda>k n. 1) (\<lambda>p. ''1.0'')
            (min_reads_gate default_config
               ((new_snp (rs1_line ''A'' ''G''))\<lparr>reads := replicate 10 (plain_read 100 ''A'')\<rparr>))
          = Inr (s', 2)
        \<and> report_comment s' = ''Insufficient_Alleles;No_Alt_Reads;''
        \<and> report_comment s' \<noteq> ''Insufficient_Alleles;''
        \<and> report_alt s' = ''G:0:.''
        \<and> report_alt s' \<noteq> ''.:.:.''"
  by (simp add: new_snp_def rs1_line_def plain_read_def base_snp_def py_index_def
      default_config_def min_reads_gate_def split_and_test_def reference_allele_def
      test_imbalance_def alt_report_def numeral_eq_Suc)


subsection \<open>The substitute reference base\<close>

lemma most_counts_first_max:
  "most_counts a d (b0, c0) = (b, c) \<Longrightarrow>
   (b = b0 \<and> c = c0 \<and> (\<forall>(k, e) \<in> set d. k \<noteq> a \<longrightarrow> allele_count e \<le> c0))
   \<or> (\<exists>pre e suf. d = pre @ (b, e) # suf \<and> b \<noteq> a \<and> allele_count e = c \<and> c0 < c
         \<and> (\<forall>(k, e') \<in> set pre. k \<noteq> a \<longrightarrow> allele_count e' < c)
         \<and> (\<forall>(k, e') \<in> set suf. k \<noteq> a \<longrightarrow> allele_count e' \<le> c))"
proof (induction d arbitrary: b0 c0)
  case Nil
  then show ?case by simp
next
  case (Cons x d)
  obtain k e where x: "x = (k, e)" by (cases x)
  show ?case
  proof (cases "k \<noteq> a \<and> allele_count e > c0")
    case True
    then have "most_counts a d (k, allele_count e) = (b, c)" using Cons.prems x by simp
    from Cons.IH [OF this] show ?thesis
    proof
      assume h: "b = k \<and> c = allele_count e
                 \<and> (\<forall>(k, e') \<in> set d. k \<noteq> a \<longrightarrow> allele_count e' \<le> allele_count e)"
      have "x # d = [] @ (b, e) # d" using x h by simp
      then show ?thesis using h True by (intro disjI2 exI [of _ "[]"] exI [of _ e] exI [of _ d]) auto
    next
      assume "\<exists>pre e' suf. d = pre @ (b, e') # suf \<and> b \<noteq> a \<and> allele_count e' = c
                \<and> allele_count e < c
                \<and> (\<forall>(k, e'') \<in> set pre. k \<noteq> a \<longrightarrow> allele_count e'' < c)
                \<and> (\<forall>(k, e'') \<in> set suf. k \<noteq> a \<longrightarrow> allele_count e'' \<le> c)"
      then obtain pre e' suf where h: "d = pre @ (b, e') # suf" "b \<noteq> a" "allele_count e' = c"
          "allele_count e < c"
          "\<forall>(k, e'') \<in> set pre. k \<noteq> a \<longrightarrow> allele_count e'' < c"
          "\<forall>(k, e'') \<in> set suf. k \<noteq> a \<longrightarrow> allele_count e'' \<le> c"
        by blast
      have "x # d = (x # pre) @ (b, e') # suf" using h(1) by simp
      moreover have "\<forall>(k, e'') \<in> set (x # pre). k \<noteq> a \<longrightarrow> allele_count e'' < c"
        using h(4,5) x by auto
      moreover have "c0 < c" using True h(4) by linarith
      ultimately show ?thesis using h(2,3,6)
        by (intro disjI2 exI [of _ "x # pre"] exI [of _ e'] exI [of _ suf]) auto
    qed
  next
    case False
    then have "most_counts a d (b0, c0) = (b, c)" using Cons.prems x by auto
    from Cons.IH [OF this] show ?thesis
    proof
      assume "b = b0 \<and> c = c0 \<and> (\<forall>(k, e) \<in> set d. k \<noteq> a \<longrightarrow> allele_count e \<le> c0)"
      then show ?thesis using False x by auto
    next
      assume "\<exists>pre e' suf. d = pre @ (b, e') # suf \<and> b \<noteq> a \<and> allele_count e' = c \<and> c0 < c
                \<and> (\<forall>(k, e'') \<in> set pre. k \<noteq> a \<longrightarrow> allele_count e'' < c)
                \<and> (\<forall>(k, e'') \<in> set suf. k \<noteq> a \<longrightarrow> allele_count e'' \<le> c)"
      then obtain pre e' suf where h: "d = pre @ (b, e') # suf" "b \<noteq> a" "allele_count e' = c"
          "c0 < c"
          "\<forall>(k, e'') \<in> set pre. k \<noteq> a \<longrightarrow> allele_count e'' < c"
          "\<forall>(k, e'') \<in> set suf. k \<noteq> a \<longrightarrow> allele_count e'' \<le> c"
        by blast
      have "x # d = (x # pre) @ (b, e') # suf" using h(1) by simp
      moreover have "\<forall>(k, e'') \<in> set (x # pre). k \<noteq> a \<longrightarrow> allele_count e'' < c"
        using h(4,5) x False by auto
      ultimately show ?thesis using h(2,3,4,6)
        by (intro disjI2 exI [of _ "x # pre"] exI [of _ e'] exI [of _ suf]) auto
    qed
  qed
qed

text \<open>
  C4 (amended).  A SNP whose reference base has no count, while some base other than the
  alternative one has a count above zero: the substitute is the first base, in the
  iteration order of \<open>allelic_dict\<close> (the order in which the bases were first seen in the
  reads), among the bases other than the alternative one with the largest count: every
  such base before it has a strictly smaller count and every one after it at most the
  same.  The reference report becomes \<open><ref>:0;<substitute>:<count>\<close> and
  \<open>No_Ref_Reads;Calc_rel_to_<substitute>;\<close> is appended to the comment.
\<close>

theorem substitute_reference_first_max:
  assumes "dict_get d (ref s) = None"
    and "\<exists>(k, e) \<in> set d. k \<noteq> alt s \<and> 0 < allele_count e"
  shows "\<exists>pre b e suf.
           d = pre @ (b, e) # suf \<and> b \<noteq> alt s \<and> b \<noteq> ref s \<and> 0 < allele_count e
           \<and> (\<forall>(k, e') \<in> set pre. k \<noteq> alt s \<longrightarrow> allele_count e' < allele_count e)
           \<and> (\<forall>(k, e') \<in> set suf. k \<noteq> alt s \<longrightarrow> allele_count e' \<le> allele_count e)
           \<and> reference_allele s d =
               (s\<lparr>report_ref := ref s @ '':0;'' @ b @ '':'' @ str_int (allele_count e),
                  report_comment := report_comment s @ ''No_Ref_Reads;Calc_rel_to_'' @ b @ '';''\<rparr>,
                b, allele_count e)"
proof -
  obtain b c where m: "most_counts (alt s) d (ref s, 0) = (b, c)" by (cases "most_counts (alt s) d (ref s, 0)")
  from most_counts_first_max [OF m] assms(2)
  obtain pre e suf where h: "d = pre @ (b, e) # suf" "b \<noteq> alt s" "allele_count e = c" "0 < c"
      "\<forall>(k, e') \<in> set pre. k \<noteq> alt s \<longrightarrow> allele_count e' < c"
      "\<forall>(k, e') \<in> set suf. k \<noteq> alt s \<longrightarrow> allele_count e' \<le> c"
    by fastforce
  have "b \<in> fst ` set d" using h(1) by force
  moreover have "ref s \<notin> fst ` set d" using assms(1) by (simp add: dict_get_None_iff)
  ultimately have nr: "b \<noteq> ref s" by blast
  have "reference_allele s d =
          (s\<lparr>report_ref := ref s @ '':0;'' @ b @ '':'' @ str_int (allele_count e),
             report_comment := report_comment s @ ''No_Ref_Reads;Calc_rel_to_'' @ b @ '';''\<rparr>,
           b, allele_count e)"
    using assms(1) m nr h(3) by (simp add: reference_allele_def)
  then show ?thesis using h nr by blast
qed


text \<open>
  \<open>T\<close> and \<open>C\<close> with three reads each, \<open>T\<close> seen first; the nine reads of the
  alternative base \<open>G\<close> do not count.
\<close>

theorem substitute_reference_first_max_witness:
  "reference_allele (new_snp (rs1_line ''A'' ''G''))
     [(''G'', \<lparr>allele_count = 9, allele_pvalue = None\<rparr>),
      (''T'', \<lparr>allele_count = 3, allele_pvalue = None\<rparr>),
      (''C'', \<lparr>allele_count = 3, allele_pvalue = None\<rparr>)]
   = ((new_snp (rs1_line ''A'' ''G''))
        \<lparr>report_ref := ''A:0;T:3'', report_comment := ''No_Ref_Reads;Calc_rel_to_T;''\<rparr>,
      ''T'', 3)"
  using substitute_reference_first_max
    [of "[(''G'', \<lparr>allele_count = 9, allele_pvalue = None\<rparr>),
          (''T'', \<lparr>allele_count = 3, allele_pvalue = None\<rparr>),
          (''C'', \<lparr>allele_count = 3, allele_pvalue = None\<rparr>)]"
        "new_snp (rs1_line ''A'' ''G'')"]
  by (simp add: new_snp_def rs1_line_def reference_allele_def str_int_def str_nat.simps
      digit_char_def)

text \<open>
  The claim as stated fails: of \<open>T\<close> and \<open>C\<close> with one read each the script takes the
  one whose read comes first, \<open>T\<close> in one order of the reads and \<open>C\<close> in the other; no
  fixed order of the bases, lexicographic or other, decides.
\<close>

theorem substitute_tie_counterexample:
  "count_alleles 100 [plain_read 100 ''T'', plain_read 100 ''C''] []
     = Inr [(''T'', \<lparr>allele_count = 1, allele_pvalue = None\<rparr>),
            (''C'', \<lparr>allele_count = 1, allele_pvalue = None\<rparr>)]
   \<and> fst (snd (reference_allele (new_snp (rs1_line ''A'' ''G''))
        [(''T'', \<lparr>allele_count = 1, allele_pvalue = None\<rparr>),
         (''C'', \<lparr>allele_count = 1, allele_pvalue = None\<rparr>)])) = ''T''
   \<and> ''C'' < ''T''
   \<and> count_alleles 100 [plain_read 100 ''C'', plain_read 100 ''T''] []
     = Inr [(''C'', \<lparr>allele_count = 1, allele_pvalue = None\<rparr>),
            (''T'', \<lparr>allele_count = 1, allele_pvalue = None\<rparr>)]
   \<and> fst (snd (reference_allele (new_snp (rs1_line ''A'' ''G''))
        [(''C'', \<lparr>allele_count = 1, allele_pvalue = None\<rparr>),
         (''T'', \<lparr>allele_count = 1, allele_pvalue = None\<rparr>)])) = ''C''"
  by (simp add: new_snp_def rs1_line_def plain_read_def base_snp_def py_index_def
      reference_allele_def)


subsection \<open>The order of the output\<close>

lemma zip_map_self: "zip (map f ks) ks = map (\<lambda>k. (f k, k)) ks"
  by (induction ks) auto


lemma sorted_fst_of_pairs:
  "sorted (map (\<lambda>k. (f k, k)) xs) \<Longrightarrow> sorted (map f xs)"
  by (induction xs) (auto simp: less_eq_prod_def)

text \<open>
  C5 (amended).  Sorted by p-value, the output has the keys of \<open>snp_dict\<close>, each once
  more, in ascending order of the pair of sort value and key, the sort value being the
  p-value of a SNP in \<open>valid_tests_dict\<close> and 1 of any other: ascending by sort value,
  and among equal sort values ascending by key, not in the order of the input.
\<close>

theorem sorted_keys_by_value_then_key:
  "sorted (map (\<lambda>k. (case dict_get v k of Some (p, q) \<Rightarrow> p | None \<Rightarrow> 1, k)) (sorted_keys v ks))
   \<and> sorted (sort_values v (sorted_keys v ks))
   \<and> mset (sorted_keys v ks) = mset ks"
proof -
  let ?f = "\<lambda>k. (case dict_get v k of Some (p, q) \<Rightarrow> p | None \<Rightarrow> (1::real))"
  let ?xs = "map (\<lambda>k. (?f k, k)) ks"
  have z: "zip (sort_values v ks) ks = ?xs"
    by (simp add: sort_values_def zip_map_self)
  have "\<forall>x \<in> set (sort ?xs). (?f (snd x), snd x) = x" by auto
  then have "map (\<lambda>x. (?f (snd x), snd x)) (sort ?xs) = sort ?xs"
    by (intro map_idI) blast
  then have "map (\<lambda>k. (?f k, k)) (map snd (sort ?xs)) = sort ?xs"
    by (simp add: o_def)
  then have s: "sorted (map (\<lambda>k. (?f k, k)) (sorted_keys v ks))"
    by (simp add: sorted_keys_def z)
  have "mset (map snd (sort ?xs)) = image_mset snd (mset ?xs)" by simp
  also have "\<dots> = mset ks" by (simp add: image_mset.compositionality o_def)
  finally have m: "mset (sorted_keys v ks) = mset ks" by (simp add: sorted_keys_def z)
  have "sorted (map ?f (sorted_keys v ks))" using s by (rule sorted_fst_of_pairs)
  then have "sorted (sort_values v (sorted_keys v ks))" by (simp add: sort_values_def)
  then show ?thesis using s m by simp
qed


text \<open>
  The claim as stated fails: two SNPs outside the pool, \<open>rs9\<close> before \<open>rs1\<close> in the
  input, come out as \<open>rs1\<close>, \<open>rs9\<close>; and \<open>rs1\<close> outside the pool comes before \<open>rs9\<close>
  in the pool with p-value 1.
\<close>

theorem sort_ties_by_key_counterexample:
  "sorted_keys [] [''rs9'', ''rs1''] = [''rs1'', ''rs9'']
   \<and> sorted_keys [(''rs9'', 1, 1)] [''rs9'', ''rs1''] = [''rs1'', ''rs9'']"
  by (simp add: sorted_keys_def sort_values_def)

subsection \<open>The Benjamini-Hochberg correction\<close>

lemma mset_argsort: "mset (argsort ps) = mset [0..<length ps]"
proof -
  have e: "map snd (zip ps [0..<length ps]) = [0..<length ps]" by (rule map_snd_zip) simp
  have "mset (argsort ps) = image_mset snd (mset (sort_key fst (zip ps [0..<length ps])))"
    by (simp only: argsort_def mset_map)
  also have "\<dots> = image_mset snd (mset (zip ps [0..<length ps]))" by (simp only: mset_sort)
  also have "\<dots> = mset (map snd (zip ps [0..<length ps]))" by (simp only: mset_map)
  also have "\<dots> = mset [0..<length ps]" by (simp only: e)
  finally show ?thesis .
qed

lemma set_argsort: "set (argsort ps) = {0..<length ps}"
  using mset_argsort [of ps] by (metis mset_eq_setD set_upt)

lemma distinct_argsort: "distinct (argsort ps)"
  using mset_argsort [of ps] by (metis distinct_upt mset_eq_imp_distinct_iff)

lemma length_argsort: "length (argsort ps) = length ps"
  using mset_argsort [of ps] by (metis length_upt mset_eq_length minus_nat.diff_0)

lemma pvals_sorted_eq:
  "map (\<lambda>i. ps ! i) (argsort ps) = map fst (sort_key fst (zip ps [0..<length ps]))"
proof -
  have "\<forall>x \<in> set (sort_key fst (zip ps [0..<length ps])). ps ! snd x = fst x"
    by (auto simp: set_zip)
  then show ?thesis by (simp add: argsort_def)
qed

lemma sorted_pvals_sorted: "sorted (map (\<lambda>i. ps ! i) (argsort ps))"
  by (simp add: pvals_sorted_eq)

lemma scatter_other: "i \<notin> fst ` set ivs \<Longrightarrow> scatter ivs out ! i = out ! i"
  by (induction ivs arbitrary: out) auto

lemma scatter_nth:
  "distinct (map fst ivs) \<Longrightarrow> (i, v) \<in> set ivs \<Longrightarrow> i < length out \<Longrightarrow> scatter ivs out ! i = v"
proof (induction ivs arbitrary: out)
  case Nil
  then show ?case by simp
next
  case (Cons x ivs)
  obtain j w where x: "x = (j, w)" by (cases x)
  show ?case
  proof (cases "(i, v) = (j, w)")
    case True
    then have "i \<notin> fst ` set ivs" using Cons.prems(1) x by auto
    then have "scatter ivs (out[j := w]) ! i = out[j := w] ! i" by (rule scatter_other)
    then show ?thesis using True x Cons.prems(3) by simp
  next
    case False
    then have "(i, v) \<in> set ivs" using Cons.prems(2) x by auto
    then show ?thesis using Cons.IH [of "out[j := w]"] Cons.prems(1,3) x by simp
  qed
qed

lemma cummin_right_ge:
  "list_all2 (\<le>) ps xs \<Longrightarrow> sorted ps \<Longrightarrow> list_all2 (\<le>) ps (cummin_right xs)"
proof (induction rule: list_all2_induct)
  case Nil
  then show ?case by simp
next
  case (Cons p ps x xs)
  then have ih: "list_all2 (\<le>) ps (cummin_right xs)" by simp
  show ?case
  proof (cases "cummin_right xs")
    case Nil
    then have "ps = []" using ih by simp
    then show ?thesis using Nil Cons.hyps(1) by simp
  next
    case (Cons y ys)
    then obtain p' ps' where ps: "ps = p' # ps'" using ih by (cases ps) auto
    have "p \<le> p'" using Cons.prems ps by simp
    moreover have "p' \<le> y" using ih ps Cons by simp
    ultimately have "p \<le> min x y" using Cons.hyps(1) by simp
    then show ?thesis using ih Cons by simp
  qed
qed

lemma le_divide_fraction:
  fixes p f :: real
  assumes "0 \<le> p" and "0 < f" and "f \<le> 1"
  shows "p \<le> p / f"
proof -
  have "p * f \<le> p * 1" using assms(3,1) by (rule mult_left_mono)
  then show ?thesis using assms(2) by (simp add: le_divide_eq)
qed

lemma raw_ge:
  assumes "\<forall>p \<in> set ps. 0 \<le> p" and "length ps = n"
  shows "list_all2 (\<le>) ps
           (map (\<lambda>(p, f). p / f) (zip ps (map (\<lambda>k. real k / real n) [1..<Suc n])))"
proof -
  have "ps ! j \<le> ps ! j / (real (Suc j) / real n)" if "j < n" for j
  proof -
    have p: "0 \<le> ps ! j" using assms that by simp
    have "0 < real (Suc j) / real n" using that by simp
    moreover have "real (Suc j) / real n \<le> 1" using that by simp
    ultimately show ?thesis using p by (intro le_divide_fraction)
  qed
  then show ?thesis using assms(2)
    by (auto simp: list_all2_conv_all_nth nth_append simp del: upt_Suc)
qed

lemma fdr_bh_ge:
  assumes "\<forall>p \<in> set ps. 0 \<le> p \<and> p \<le> 1" and "i < length ps"
  shows "ps ! i \<le> fdr_bh ps ! i"
proof -
  define n where "n = length ps"
  define ind where "ind = argsort ps"
  define srt where "srt = map (\<lambda>i. ps ! i) ind"
  define raw where
    "raw = map (\<lambda>(p, f). p / f) (zip srt (map (\<lambda>k. real k / real n) [1..<Suc n]))"
  define corr where "corr = map (min 1) (cummin_right raw)"
  have li: "length ind = n" by (simp add: ind_def n_def length_argsort)
  have sub: "set srt \<subseteq> set ps" by (auto simp: srt_def ind_def set_argsort)
  have len: "length srt = n" by (simp add: srt_def li)
  have "list_all2 (\<le>) srt raw" unfolding raw_def using sub assms(1) len by (intro raw_ge) auto
  moreover have "sorted srt" unfolding srt_def ind_def by (rule sorted_pvals_sorted)
  ultimately have l2: "list_all2 (\<le>) srt (cummin_right raw)" by (rule cummin_right_ge)
  then have lr: "length (cummin_right raw) = n" using len by (simp add: list_all2_lengthD [symmetric])
  then have lc: "length corr = n" by (simp add: corr_def)
  have l3: "srt ! k \<le> corr ! k" if "k < n" for k
  proof -
    have "srt ! k \<le> cummin_right raw ! k" using l2 that len by (simp add: list_all2_nthD)
    moreover have "srt ! k \<in> set srt" using that len by simp
    then have "srt ! k \<le> 1" using sub assms(1) by blast
    ultimately show ?thesis using lr that by (simp add: corr_def)
  qed
  have "i \<in> set ind" using assms(2) by (simp add: ind_def set_argsort)
  then obtain k where k: "k < n" "ind ! k = i" using li by (metis in_set_conv_nth)
  have mem: "(i, corr ! k) \<in> set (zip ind corr)" using k lc li by (auto simp: set_zip)
  have dis: "distinct (map fst (zip ind corr))"
    using lc li by (simp add: ind_def distinct_argsort)
  have "scatter (zip ind corr) (replicate n 0) ! i = corr ! k"
    using dis mem assms(2) by (intro scatter_nth) (auto simp: n_def)
  moreover have "fdr_bh ps = scatter (zip ind corr) (replicate n 0)"
    by (simp add: fdr_bh_def Let_def corr_def raw_def srt_def ind_def n_def del: upt_Suc)
  moreover have "srt ! k = ps ! i" using k li by (simp add: srt_def)
  ultimately show ?thesis using l3 [OF k(1)] by simp
qed

text \<open>
  C8.  Over a pool of p-values between 0 and 1, every entry of \<open>valid_tests_dict\<close> keeps
  its key and p-value and gets a q-value that is at least its p-value.
\<close>

theorem qvalue_ge_pvalue:
  assumes "\<forall>(k, p) \<in> set v. 0 \<le> p \<and> p \<le> 1"
  shows "map (\<lambda>(k, p, q). (k, p)) (perform_fdr v) = v
         \<and> (\<forall>(k, p, q) \<in> set (perform_fdr v). p \<le> q)"
proof
  have "map (\<lambda>(k, p, q). (k, p)) (perform_fdr v) = map (\<lambda>i. v ! i) [0..<length v]"
    by (simp add: perform_fdr_def Let_def o_def cong: map_cong)
  then show "map (\<lambda>(k, p, q). (k, p)) (perform_fdr v) = v"
    by (simp only: map_nth)
  have r: "\<forall>p \<in> set (map snd v). 0 \<le> p \<and> p \<le> 1" using assms by auto
  have "map snd v ! i \<le> fdr_bh (map snd v) ! i" if "i < length v" for i
    using fdr_bh_ge [OF r, of i] that by simp
  then show "\<forall>(k, p, q) \<in> set (perform_fdr v). p \<le> q"
    by (auto simp: perform_fdr_def Let_def)
qed



text \<open>Three SNPs with the p-values 1/8, 1/2 and 1/100.\<close>

theorem qvalue_ge_pvalue_witness:
  "perform_fdr [(''rs1'', 1/8), (''rs2'', 1/2), (''rs3'', 1/100)]
     = [(''rs1'', 1/8, 3/16), (''rs2'', 1/2, 1/2), (''rs3'', 1/100, 3/100)]
   \<and> (1/8::real) \<le> 3/16 \<and> (1/2::real) \<le> 1/2 \<and> (1/100::real) \<le> 3/100"
proof -
  have e: "perform_fdr [(''rs1'', 1/8), (''rs2'', 1/2), (''rs3'', 1/100)]
             = [(''rs1'', 1/8, 3/16), (''rs2'', 1/2, 1/2), (''rs3'', 1/100, 3/100)]"
    by code_simp
  have h: "\<forall>(k, p) \<in> set [(''rs1'', 1/8::real), (''rs2'', 1/2), (''rs3'', 1/100)]. 0 \<le> p \<and> p \<le> 1"
    by simp
  have "\<forall>(k, p, q) \<in> set (perform_fdr [(''rs1'', 1/8), (''rs2'', 1/2), (''rs3'', 1/100)]). p \<le> q"
    using qvalue_ge_pvalue [OF h] by (rule conjunct2)
  then show ?thesis using e by simp
qed

subsection \<open>The indel test\<close>

lemma one_or_eq_one: "0 \<le> n \<Longrightarrow> ((1::int) OR n = 1) = (n = 0 \<or> n = 1)"
proof
  assume n: "0 \<le> n" and e: "(1::int) OR n = 1"
  have "n \<le> 1 OR n" using or_greater_eq [of 1 n] by (simp add: or.commute)
  with e n show "n = 0 \<or> n = 1" by linarith
next
  assume "n = 0 \<or> n = 1"
  then show "(1::int) OR n = 1" by auto
qed

text \<open>
  What the test computes: a line is skipped when its alternative column has two or more
  characters and the length of its reference column differs from that length with the
  lowest bit set.  The length of the reference column alone never makes a line skipped.
\<close>

lemma skip_indel_iff:
  "skip_indel r a = (2 \<le> length a \<and> int (length r) \<noteq> (1 OR int (length a)))"
proof -
  have "((1::int) OR int (length a) = 1) = (length a = 0 \<or> length a = 1)"
    using one_or_eq_one [of "int (length a)"] by simp
  moreover have "(length a = 0 \<or> length a = 1) = (\<not> 2 \<le> length a)" by arith
  ultimately show ?thesis unfolding skip_indel_def by auto
qed

text \<open>
  C3 (the code departs from the claim).  The claim: a record is excluded and counted as an
  indel exactly when its reference or its alternative is not of length one.  On the
  deletion \<open>AT\<close> to \<open>A\<close> the test of the script is false: the record enters the dictionary
  with a reference of two characters and \<open>indel_count\<close> stays 0.
\<close>

theorem indel_deletion_enters_registry:
  "skip_indel ''AT'' ''A'' = False
   \<and> length ''AT'' \<noteq> 1
   \<and> read_snps [rs1_line ''AT'' ''A''] ([], 0) = ([(''rs1'', new_snp (rs1_line ''AT'' ''A''))], 0)
   \<and> ref (new_snp (rs1_line ''AT'' ''A'')) = ''AT''"
  by (simp add: skip_indel_def rs1_line_def new_snp_def)

subsection \<open>The read filter\<close>

text \<open>
  C9.  Where the SNP lies inside the quality array of every read within the mismatch
  budget, the reads kept are exactly those with at most the allowed mismatches and a
  quality at offset \<open>pos - reference_start\<close> of at least the minimum, in their order;
  nothing else is tested.
\<close>

theorem filter_reads_accepts:
  "\<forall>r \<in> set rs. tag_NM r \<le> MAX_MISSMATCHES_PER_READ cfg \<longrightarrow>
       0 \<le> pos s - reference_start r
       \<and> pos s - reference_start r < int (length (query_alignment_qualities r)) \<Longrightarrow>
   filter_reads cfg s rs =
     Inr (filter (\<lambda>r. tag_NM r \<le> MAX_MISSMATCHES_PER_READ cfg
                    \<and> MIN_MAPPING_QUAL_AT_SNP cfg
                         \<le> query_alignment_qualities r ! nat (pos s - reference_start r)) rs)"
  by (induction rs) (auto simp: read_passes_def py_index_def)

text \<open>
  Three reads over position 100 with mismatches 2, 3 and 0, the last of quality 19 at the
  SNP, under a budget of two mismatches and a minimum quality of 20: the first is kept
  (equal to the maximum passes), the second and the third are dropped.
\<close>

theorem filter_reads_accepts_witness:
  "filter_reads \<lparr>MAX_MISSMATCHES_PER_READ = 2, MIN_MAPPING_QUAL_AT_SNP = 20, MIN_READS_AT_SNP = 10\<rparr>
     (new_snp (rs1_line ''A'' ''G''))
     [\<lparr>reference_start = 99, query_sequence = ''CAT'',
        query_alignment_qualities = [30, 20, 30], tag_NM = 2\<rparr>,
      \<lparr>reference_start = 99, query_sequence = ''CAT'',
        query_alignment_qualities = [30, 30, 30], tag_NM = 3\<rparr>,
      \<lparr>reference_start = 100, query_sequence = ''AT'',
        query_alignment_qualities = [19, 30], tag_NM = 0\<rparr>]
   = Inr [\<lparr>reference_start = 99, query_sequence = ''CAT'',
            query_alignment_qualities = [30, 20, 30], tag_NM = 2\<rparr>]"
  using filter_reads_accepts
    [of "[\<lparr>reference_start = 99, query_sequence = ''CAT'',
            query_alignment_qualities = [30, 20, 30], tag_NM = 2\<rparr>,
          \<lparr>reference_start = 99, query_sequence = ''CAT'',
            query_alignment_qualities = [30, 30, 30], tag_NM = 3\<rparr>,
          \<lparr>reference_start = 100, query_sequence = ''AT'',
            query_alignment_qualities = [19, 30], tag_NM = 0\<rparr>]"
        "\<lparr>MAX_MISSMATCHES_PER_READ = 2, MIN_MAPPING_QUAL_AT_SNP = 20, MIN_READS_AT_SNP = 10\<rparr>"
        "new_snp (rs1_line ''A'' ''G'')"]
  by (simp add: new_snp_def rs1_line_def)

text \<open>
  C10.  A read that starts after the SNP has a negative offset.  As long as the distance
  is at most the length of the quality array and of the sequence, neither lookup fails:
  the filter tests the quality that many places before the end of the read and keeps or
  drops the read on it, and the count takes the base that many places before the end of
  the read and adds one to the count of that base.
\<close>

theorem negative_offset_indexes_from_end:
  assumes "pos s < reference_start r"
    and "reference_start r - pos s \<le> int (length (query_alignment_qualities r))"
    and "reference_start r - pos s \<le> int (length (query_sequence r))"
  shows "read_passes cfg s r =
           Inr (tag_NM r \<le> MAX_MISSMATCHES_PER_READ cfg
                \<and> MIN_MAPPING_QUAL_AT_SNP cfg
                     \<le> query_alignment_qualities r
                          ! (length (query_alignment_qualities r) - nat (reference_start r - pos s)))
         \<and> base_snp (pos s) r =
             Inr [query_sequence r ! (length (query_sequence r) - nat (reference_start r - pos s))]
         \<and> filter_reads cfg s (r # rs) =
             (case filter_reads cfg s rs of
                Inl e \<Rightarrow> Inl e
              | Inr temp_reads \<Rightarrow>
                  Inr (if tag_NM r \<le> MAX_MISSMATCHES_PER_READ cfg
                          \<and> MIN_MAPPING_QUAL_AT_SNP cfg
                               \<le> query_alignment_qualities r
                                    ! (length (query_alignment_qualities r)
                                         - nat (reference_start r - pos s))
                       then r # temp_reads else temp_reads))
         \<and> count_alleles (pos s) (r # rs) d =
             count_alleles (pos s) rs
               (dict_set d
                  [query_sequence r ! (length (query_sequence r) - nat (reference_start r - pos s))]
                  (case dict_get d
                          [query_sequence r
                             ! (length (query_sequence r) - nat (reference_start r - pos s))] of
                     Some a \<Rightarrow> a\<lparr>allele_count := allele_count a + 1\<rparr>
                   | None \<Rightarrow> \<lparr>allele_count = 1, allele_pvalue = None\<rparr>))
         \<and> count_alleles (pos s) [r] [] =
             Inr [([query_sequence r ! (length (query_sequence r) - nat (reference_start r - pos s))],
                   \<lparr>allele_count = 1, allele_pvalue = None\<rparr>)]"
proof -
  let ?i = "pos s - reference_start r"
  have i: "?i < 0" using assms(1) by simp
  have q: "py_index (query_alignment_qualities r) ?i =
             Inr (query_alignment_qualities r ! (length (query_alignment_qualities r) - nat (- ?i)))"
    using i assms(2) by (intro py_index_neg) auto
  have b: "py_index (query_sequence r) ?i =
             Inr (query_sequence r ! (length (query_sequence r) - nat (- ?i)))"
    using i assms(3) by (intro py_index_neg) auto
  have p: "read_passes cfg s r =
           Inr (tag_NM r \<le> MAX_MISSMATCHES_PER_READ cfg
                \<and> MIN_MAPPING_QUAL_AT_SNP cfg
                     \<le> query_alignment_qualities r
                          ! (length (query_alignment_qualities r) - nat (reference_start r - pos s)))"
    using q by (auto simp: read_passes_def)
  have c: "base_snp (pos s) r =
             Inr [query_sequence r ! (length (query_sequence r) - nat (reference_start r - pos s))]"
    using b by (simp add: base_snp_def)
  have f: "filter_reads cfg s (r # rs) =
             (case filter_reads cfg s rs of
                Inl e \<Rightarrow> Inl e
              | Inr temp_reads \<Rightarrow>
                  Inr (if tag_NM r \<le> MAX_MISSMATCHES_PER_READ cfg
                          \<and> MIN_MAPPING_QUAL_AT_SNP cfg
                               \<le> query_alignment_qualities r
                                    ! (length (query_alignment_qualities r)
                                         - nat (reference_start r - pos s))
                       then r # temp_reads else temp_reads))"
    by (simp add: p)
  have n: "count_alleles (pos s) (r # rs) d =
             count_alleles (pos s) rs
               (dict_set d
                  [query_sequence r ! (length (query_sequence r) - nat (reference_start r - pos s))]
                  (case dict_get d
                          [query_sequence r
                             ! (length (query_sequence r) - nat (reference_start r - pos s))] of
                     Some a \<Rightarrow> a\<lparr>allele_count := allele_count a + 1\<rparr>
                   | None \<Rightarrow> \<lparr>allele_count = 1, allele_pvalue = None\<rparr>))"
    by (simp add: c split: option.splits)
  have o: "count_alleles (pos s) [r] [] =
             Inr [([query_sequence r ! (length (query_sequence r) - nat (reference_start r - pos s))],
                   \<lparr>allele_count = 1, allele_pvalue = None\<rparr>)]"
    by (simp add: c)
  show ?thesis using p c f n o by blast
qed

text \<open>
  The read \<open>ACGT\<close> starting at 101, one place after the SNP at 100: it passes the filter
  on the quality of its last base, is kept, and is counted as a \<open>T\<close>.
\<close>

theorem negative_offset_indexes_from_end_witness:
  "pos (new_snp (rs1_line ''A'' ''G'')) < reference_start (plain_read 101 ''ACGT'')
   \<and> read_passes default_config (new_snp (rs1_line ''A'' ''G'')) (plain_read 101 ''ACGT'') = Inr True
   \<and> base_snp (pos (new_snp (rs1_line ''A'' ''G''))) (plain_read 101 ''ACGT'') = Inr ''T''
   \<and> filter_reads default_config (new_snp (rs1_line ''A'' ''G'')) [plain_read 101 ''ACGT'']
       = Inr [plain_read 101 ''ACGT'']
   \<and> count_alleles (pos (new_snp (rs1_line ''A'' ''G''))) [plain_read 101 ''ACGT''] []
       = Inr [(''T'', \<lparr>allele_count = 1, allele_pvalue = None\<rparr>)]"
  using negative_offset_indexes_from_end
    [of "new_snp (rs1_line ''A'' ''G'')" "plain_read 101 ''ACGT''" default_config "[]" "[]"]
  by (simp add: new_snp_def rs1_line_def plain_read_def default_config_def)

subsection \<open>Completion of the run\<close>

text \<open>
  C1 (the code departs from the claim).  The claim: the run completes for every input, and
  a SNP with sufficient reads whose alternative base was never seen, or whose reads show
  only the alternative base, still gets its line.  One SNP \<open>A\<close> to \<open>G\<close> covered by ten
  reads: when all show \<open>A\<close>, the condition of the FDR stage looks up the alternative base
  in \<open>allelic_dict\<close> and raises \<open>KeyError\<close>; when all show \<open>G\<close>, the alternative report
  reads a \<open>pvalue\<close> that no test has set and raises \<open>KeyError\<close>.  Nothing is printed.
\<close>

theorem run_raises_without_tested_alt:
  "allele_specific_dnase bt str_float default_config
      [\<lambda>c a b. replicate 10 (plain_read 100 ''A'')] [rs1_line ''A'' ''G''] = Inl KeyError
   \<and> allele_specific_dnase bt str_float default_config
      [\<lambda>c a b. replicate 10 (plain_read 100 ''G'')] [rs1_line ''A'' ''G''] = Inl KeyError"
  by (simp add: allele_specific_dnase_def default_config_def plain_read_def rs1_line_def
      skip_indel_def new_snp_def min_reads_gate_def read_passes_def py_index_def
      split_and_test_def base_snp_def reference_allele_def test_imbalance_def alt_report_def
      valid_test_def numeral_eq_Suc)

text \<open>
  C2 (the code departs from the claim).  The claim: every SNP is in the pool exactly when
  it has sufficient reads, a numeric p-value of the alternative base, a count of that base
  above zero and an empty comment, and every SNP outside the pool prints \<open>.\<close> twice.
  One SNP \<open>A\<close> to \<open>G\<close> covered by eight reads showing \<open>A\<close> and two showing \<open>T\<close>: it
  has sufficient reads, is tested, and leaves the loop body with the comment
  \<open>No_Alt_Reads;\<close> and no entry for \<open>G\<close>.  It has no p-value of the alternative base
  and should stay outside the pool; the condition of 6.1 looks that p-value up before it
  looks at the comment and raises \<open>KeyError\<close>, so no pool is built and nothing is printed.
\<close>

theorem pool_condition_raises_without_alt:
  "split_and_test bt str_float
     (min_reads_gate default_config
        ((new_snp (rs1_line ''A'' ''G''))
           \<lparr>reads := replicate 8 (plain_read 100 ''A'') @ replicate 2 (plain_read 100 ''T'')\<rparr>))
     = Inr ((new_snp (rs1_line ''A'' ''G''))
              \<lparr>flag_sufficient_reads := True,
               allelic_dict := Some [(''A'', \<lparr>allele_count = 8, allele_pvalue = None\<rparr>),
                                     (''T'', \<lparr>allele_count = 2, allele_pvalue = Some (bt 2 10)\<rparr>)],
               report_comment := ''No_Alt_Reads;'', report_ref := ''A:8'',
               report_alt := ''G:0:.'',
               report_other := ''T:2:'' @ str_float (bt 2 10) @ '';''\<rparr>, 1)
   \<and> valid_test ((new_snp (rs1_line ''A'' ''G''))
              \<lparr>flag_sufficient_reads := True,
               allelic_dict := Some [(''A'', \<lparr>allele_count = 8, allele_pvalue = None\<rparr>),
                                     (''T'', \<lparr>allele_count = 2, allele_pvalue = Some (bt 2 10)\<rparr>)],
               report_comment := ''No_Alt_Reads;'', report_ref := ''A:8'',
               report_alt := ''G:0:.'',
               report_other := ''T:2:'' @ str_float (bt 2 10) @ '';''\<rparr>) = Inl KeyError
   \<and> allele_specific_dnase bt str_float default_config
        [\<lambda>c a b. replicate 8 (plain_read 100 ''A'') @ replicate 2 (plain_read 100 ''T'')]
        [rs1_line ''A'' ''G''] = Inl KeyError"
  by (simp add: allele_specific_dnase_def default_config_def plain_read_def rs1_line_def
      skip_indel_def new_snp_def min_reads_gate_def read_passes_def py_index_def
      split_and_test_def base_snp_def reference_allele_def test_imbalance_def binom_all_def
      alt_report_def valid_test_def replicate_8 replicate_2 str_int_8 str_int_2)

end
